theory Spec2Isabelle
  imports Main "HOL-Library.AList"
begin

section \<open>Python values used by \<^verbatim>\<open>main.py\<close>\<close>

text \<open>
  The program is a single Python module. Its two entry points, \<^verbatim>\<open>additions\<close> and
  \<^verbatim>\<open>updates\<close>, poll a remote API, send messages and rewrite a JSON state file.
  The embedding keeps the source's structure: one HOL function per loop body, per loop,
  per cycle and per entry point. The remote API, the messaging endpoint and the result
  of writing the state file are the fields of a \<open>world\<close> record, one record per polling
  cycle; every call the program makes is appended to a trace of events.

  Exceptions are values of the type \<open>error\<close>. The source raises nothing itself: every
  exception comes out of a library call (\<^verbatim>\<open>requests.get\<close>, \<^verbatim>\<open>response.json\<close>,
  \<^verbatim>\<open>requests.post\<close>, \<^verbatim>\<open>open\<close>, \<^verbatim>\<open>int\<close>) or a subscript of a missing key. All of
  them are subclasses of Python's \<^verbatim>\<open>Exception\<close>. A user interrupt arrives
  asynchronously and is not part of the model. Console output is left out, except the
  line printed by the exception handler of \<^verbatim>\<open>updates\<close> and the end-of-cycle tables.
\<close>

datatype error =
    RequestError      \<comment> \<open>a remote call failed, or its body was not the expected JSON\<close>
  | KeyError string   \<comment> \<open>subscript of a key the dict does not have\<close>
  | ValueError        \<comment> \<open>\<^verbatim>\<open>int(s)\<close> on a string that is no integer literal\<close>
  | AttributeError    \<comment> \<open>\<^verbatim>\<open>.items()\<close> on a value that is no dict\<close>
  | TypeError         \<comment> \<open>a value of the state file has not the shape the program writes\<close>
  | OSError           \<comment> \<open>the state file could not be written\<close>

definition nl :: string where
  "nl = [CHR 0x0A]"

text \<open>\<^verbatim>\<open>sep.join(xs)\<close>.\<close>

fun py_join :: "string \<Rightarrow> string list \<Rightarrow> string" where
  "py_join sep [] = []"
| "py_join sep [x] = x"
| "py_join sep (x # y # ys) = x @ sep @ py_join sep (y # ys)"

text \<open>\<^verbatim>\<open>xs[i:]\<close>: a negative start counts from the end and is clamped at the front.\<close>

definition py_slice_from :: "int \<Rightarrow> 'a list \<Rightarrow> 'a list" where
  "py_slice_from i xs =
     (if i < 0 then drop (nat (int (length xs) + i)) xs else drop (nat i) xs)"

text \<open>
  A Python \<^verbatim>\<open>dict\<close> keeps its keys in insertion order, so it is an association list
  with distinct keys. \<^verbatim>\<open>d[k] = v\<close> is \<^const>\<open>AList.update\<close>: the value is replaced
  in place when the key is there, the pair is appended otherwise. \<^verbatim>\<open>dict(items)\<close>
  inserts the pairs from left to right.
\<close>

definition dict_of_items :: "('k \<times> 'v) list \<Rightarrow> ('k \<times> 'v) list" where
  "dict_of_items items = foldl (\<lambda>d kv. AList.update (fst kv) (snd kv) d) [] items"

text \<open>
  \<^verbatim>\<open>xs.index(x)\<close>, with \<open>None\<close> where Python raises. The source calls it only
  behind the test \<^verbatim>\<open>x in xs\<close>.
\<close>

fun index_of :: "'a list \<Rightarrow> 'a \<Rightarrow> nat option" where
  "index_of [] x = None"
| "index_of (y # ys) x =
     (if y = x then Some 0
      else (case index_of ys x of None \<Rightarrow> None | Some i \<Rightarrow> Some (Suc i)))"

subsection \<open>\<^verbatim>\<open>str\<close> and \<^verbatim>\<open>int\<close> on integers\<close>

definition digit_char :: "nat \<Rightarrow> char" where
  "digit_char d = ''0123456789'' ! d"

definition digit_val :: "char \<Rightarrow> nat option" where
  "digit_val c = index_of ''0123456789'' c"

fun digits :: "nat \<Rightarrow> string" where
  "digits n = (if n < 10 then [digit_char n] else digits (n div 10) @ [digit_char (n mod 10)])"

declare digits.simps [simp del]

text \<open>\<^verbatim>\<open>str(k)\<close> for an integer: the decimal digits, after a minus sign when negative.\<close>

definition py_str :: "int \<Rightarrow> string" where
  "py_str k = (if k < 0 then CHR ''-'' # digits (nat (- k)) else digits (nat k))"

fun parse_digits :: "nat \<Rightarrow> string \<Rightarrow> nat option" where
  "parse_digits acc [] = Some acc"
| "parse_digits acc (c # cs) =
     (case digit_val c of None \<Rightarrow> None | Some d \<Rightarrow> parse_digits (10 * acc + d) cs)"

text \<open>
  \<^verbatim>\<open>int(s)\<close> for a string: an optional sign and a non-empty run of decimal digits.
  Python also accepts surrounding blanks, underscores between digits and non-ASCII
  digits; the model answers \<open>None\<close> (Python's \<^verbatim>\<open>ValueError\<close>) for those, which no
  file written by \<^verbatim>\<open>save_state\<close> contains.
\<close>

definition py_int :: "string \<Rightarrow> int option" where
  "py_int s =
     (case s of
        [] \<Rightarrow> None
      | c # cs \<Rightarrow>
          if c = CHR ''-'' then (if cs = [] then None else map_option (\<lambda>n. - int n) (parse_digits 0 cs))
          else if c = CHR ''+'' then (if cs = [] then None else map_option int (parse_digits 0 cs))
          else map_option int (parse_digits 0 s))"

section \<open>Changelog reconciliation (\<^verbatim>\<open>updates\<close>, lines 222 to 232)\<close>

text \<open>
  \<^verbatim>\<open>fetch_mod_changelogs\<close> returns a dict from version string to the list of its notes,
  oldest version first.
\<close>

type_synonym changelogs = "(string \<times> string list) list"

text \<open>
  \<^verbatim>\<open>list(changelogs.keys()).index(old_version) if old_version in changelogs else -2\<close>.
  \<^const>\<open>index_of\<close> answers \<open>None\<close> exactly when the key is absent, so the membership
  test and the search are one case distinction.
\<close>

definition last_version_index :: "string \<Rightarrow> changelogs \<Rightarrow> int" where
  "last_version_index old_version cl =
     (case index_of (map fst cl) old_version of Some i \<Rightarrow> int i | None \<Rightarrow> - 2)"

text \<open>\<^verbatim>\<open>dict(list(changelogs.items())[last_version_index + 1 :])\<close>.\<close>

definition new_versions :: "string \<Rightarrow> changelogs \<Rightarrow> changelogs" where
  "new_versions old_version cl =
     dict_of_items (py_slice_from (last_version_index old_version cl + 1) cl)"

text \<open>The changelog part of the message: one block per new version.\<close>

definition changelog_text :: "changelogs \<Rightarrow> string" where
  "changelog_text nvs =
     py_join nl
       (map (\<lambda>(version, changelog).
               ''<b>'' @ version @ ''</b>'' @ nl @ ''- '' @ py_join (nl @ ''- '') changelog)
            nvs)"

section \<open>Remote data, events and the world of one cycle\<close>

text \<open>
  A mod as the remote API describes it (an element of \<^verbatim>\<open>latest_added.json\<close>, or the
  answer of \<^verbatim>\<open>fetch_mod\<close>). \<open>name\<close> is \<open>None\<close> when the key is absent: \<^verbatim>\<open>additions\<close>
  reads it with \<^verbatim>\<open>mod.get("name", "N/A")\<close>, \<^verbatim>\<open>updates\<close> with a subscript that raises.
  \<open>version\<close> is \<open>None\<close> for JSON \<^verbatim>\<open>null\<close>.
\<close>

record mod_info =
  mod_id :: int
  name :: "string option"
  author :: string
  version :: "string option"
  domain_name :: string
  available :: bool
  contains_adult_content :: bool

text \<open>
  An element of \<^verbatim>\<open>user/tracked_mods.json\<close>, with the three keys the source reads.
  \<open>t_is_adult\<close> is \<open>None\<close> when the element has no key \<^verbatim>\<open>is_adult\<close>: the fields the
  remote API is known to send for a mod name its adult flag \<^verbatim>\<open>contains_adult_content\<close>,
  and \<^verbatim>\<open>is_adult\<close> is the name of the field in the program's own cache.
\<close>

record tracked_mod =
  t_mod_id :: int
  t_domain_name :: string
  t_is_adult :: "bool option"

text \<open>An element of \<^verbatim>\<open>updated.json\<close>.\<close>

record updated_mod =
  u_mod_id :: int
  u_latest_file_update :: int

text \<open>A value of \<^verbatim>\<open>local_cache\<close>.\<close>

record cache_entry =
  c_version :: "string option"
  c_is_adult :: bool
  c_latest_file_update :: "int option"

type_synonym cache = "(int \<times> cache_entry) list"

text \<open>A row of the table printed at the end of a cycle.\<close>

datatype row =
    AddedRow int string string string
      \<comment> \<open>ID, Author, Name, Link\<close>
  | UpdatedRow int string string string string string
      \<comment> \<open>ID, Author, Name, Link, Old Version, New Version\<close>

text \<open>A JSON document, as \<^verbatim>\<open>json.dump\<close> writes it and \<^verbatim>\<open>json.load\<close> reads it.\<close>

datatype json =
    JNull
  | JBool bool
  | JInt int
  | JString string
  | JArray "json list"
  | JObject "(string \<times> json) list"

text \<open>
  The calls the program makes, in order. \<open>Notify i text\<close> is the call of
  \<^verbatim>\<open>send_telegram_message\<close> with \<open>text\<close> made while the loop is at mod \<open>i\<close>;
  \<open>Report rows\<close> is the table printed at the end of a cycle (no rows: the line that
  nothing was found); \<open>SaveSeen\<close> and \<open>SaveCache\<close> are successful calls of
  \<^verbatim>\<open>save_state\<close>. The seen-set is written as a list in the set's iteration order and
  read back with \<^verbatim>\<open>set(...)\<close>, so the event holds the set.
\<close>

datatype event =
    FetchLatestAdded
  | FetchUpdated
  | FetchTracked
  | FetchMod int
  | FetchChangelogs int
  | Notify int string
  | Report "row list"
  | LogError error
  | SaveSeen "int set"
  | SaveCache json

text \<open>
  What the outside answers during one cycle. A remote call answers \<open>Inl e\<close> when it
  raises. \<open>tracked\<close> holds the tracked mods of every game; \<^verbatim>\<open>fetch_tracked_mods\<close>
  filters them. \<open>telegram text\<close> and \<open>write_state\<close> are \<open>Some e\<close> when
  \<^verbatim>\<open>requests.post\<close> or the write of the state file raises.
\<close>

record world =
  latest_added :: "error + mod_info list"
  updated :: "error + updated_mod list"
  tracked :: "error + tracked_mod list"
  mod_by_id :: "int \<Rightarrow> error + mod_info"
  changelogs_by_id :: "int \<Rightarrow> error + changelogs"
  telegram :: "string \<Rightarrow> error option"
  write_state :: "error option"

text \<open>
  How a run stands when the model stops looking: the function returned, an exception
  left it, or it is still looping after the last cycle the model was given a world for.
\<close>

datatype status = Exited | Aborted error | Running

section \<open>The Addition Tracker (\<^verbatim>\<open>additions\<close>)\<close>

record add_state =
  seen_mods :: "int set"
  new_mods_data :: "row list"
  add_trace :: "event list"

definition mod_link :: "string \<Rightarrow> int \<Rightarrow> string" where
  "mod_link domain i = ''https://nexusmods.com/'' @ domain @ ''/mods/'' @ py_str i"

definition name_or_na :: "mod_info \<Rightarrow> string" where
  "name_or_na m = (case name m of None \<Rightarrow> ''N/A'' | Some n \<Rightarrow> n)"

text \<open>An f-string prints \<^verbatim>\<open>None\<close> as the word.\<close>

definition fmt_opt :: "string option \<Rightarrow> string" where
  "fmt_opt v = (case v of None \<Rightarrow> ''None'' | Some s \<Rightarrow> s)"

definition addition_row :: "mod_info \<Rightarrow> row" where
  "addition_row m =
     AddedRow (mod_id m) (author m) (name_or_na m) (mod_link (domain_name m) (mod_id m))"

definition addition_text :: "mod_info \<Rightarrow> string" where
  "addition_text m =
     ''<b>'' @ name_or_na m @ ''</b>'' @ nl @ author m @ '' - Version '' @ fmt_opt (version m)
       @ nl @ ''Link: '' @ mod_link (domain_name m) (mod_id m)"

text \<open>
  The body of the \<^verbatim>\<open>for\<close> loop (lines 108 to 136). The first component of the result
  is the exception that left the body, if any; the state is the one reached then.
\<close>

definition additions_item :: "bool \<Rightarrow> world \<Rightarrow> mod_info \<Rightarrow> add_state \<Rightarrow> error option \<times> add_state" where
  "additions_item hide_adult_content w m s =
     (if mod_id m \<notin> seen_mods s then
        (if \<not> available m then (None, s)
         else
           let s1 = s\<lparr>seen_mods := insert (mod_id m) (seen_mods s)\<rparr> in
           if hide_adult_content \<and> contains_adult_content m then (None, s1)
           else
             let s2 = s1\<lparr>new_mods_data := new_mods_data s1 @ [addition_row m]\<rparr>;
                 s3 = s2\<lparr>add_trace := add_trace s2 @ [Notify (mod_id m) (addition_text m)]\<rparr>
             in (telegram w (addition_text m), s3))
      else (None, s))"

fun additions_for :: "bool \<Rightarrow> world \<Rightarrow> mod_info list \<Rightarrow> add_state \<Rightarrow> error option \<times> add_state" where
  "additions_for hide_adult_content w [] s = (None, s)"
| "additions_for hide_adult_content w (m # ms) s =
     (case additions_item hide_adult_content w m s of
        (Some e, s') \<Rightarrow> (Some e, s')
      | (None, s') \<Rightarrow> additions_for hide_adult_content w ms s')"

text \<open>
  One pass of the \<^verbatim>\<open>while\<close> loop up to \<^verbatim>\<open>save_state\<close> (lines 105 to 145):
  the exception that left it if any, the seen-set, and the calls made.
  \<^verbatim>\<open>sorted\<close> is stable, as \<^const>\<open>sort_key\<close> is.
\<close>

definition additions_cycle :: "bool \<Rightarrow> world \<Rightarrow> int set \<Rightarrow> error option \<times> int set \<times> event list" where
  "additions_cycle hide_adult_content w seen =
     (case latest_added w of
        Inl e \<Rightarrow> (Some e, seen, [FetchLatestAdded])
      | Inr mods \<Rightarrow>
          (case additions_for hide_adult_content w (sort_key mod_id mods)
                  \<lparr>seen_mods = seen, new_mods_data = [], add_trace = [FetchLatestAdded]\<rparr> of
             (Some e, s) \<Rightarrow> (Some e, seen_mods s, add_trace s)
           | (None, s) \<Rightarrow>
               (case write_state w of
                  Some e \<Rightarrow> (Some e, seen_mods s, add_trace s @ [Report (new_mods_data s)])
                | None \<Rightarrow>
                    (None, seen_mods s,
                     add_trace s @ [Report (new_mods_data s), SaveSeen (seen_mods s)]))))"

text \<open>
  The \<^verbatim>\<open>while True\<close> loop, one world per cycle. Nothing catches an exception here.
\<close>

fun additions_loop :: "bool \<Rightarrow> bool \<Rightarrow> world list \<Rightarrow> int set \<Rightarrow> status \<times> int set \<times> event list" where
  "additions_loop hide_adult_content loop [] seen = (Running, seen, [])"
| "additions_loop hide_adult_content loop (w # ws) seen =
     (case additions_cycle hide_adult_content w seen of
        (Some e, seen', t) \<Rightarrow> (Aborted e, seen', t)
      | (None, seen', t) \<Rightarrow>
          if loop then
            (case additions_loop hide_adult_content loop ws seen' of
               (st, seen'', t') \<Rightarrow> (st, seen'', t @ t'))
          else (Exited, seen', t))"

text \<open>
  \<^verbatim>\<open>additions\<close>: the state file is a JSON array of integers, \<open>None\<close> when it does not
  exist (\<^verbatim>\<open>load_state\<close> then returns \<^verbatim>\<open>None\<close>, and \<^verbatim>\<open>or []\<close> makes the set empty).
\<close>

definition additions :: "bool \<Rightarrow> bool \<Rightarrow> int list option \<Rightarrow> world list \<Rightarrow> status \<times> int set \<times> event list" where
  "additions hide_adult_content loop state_file ws =
     additions_loop hide_adult_content loop ws
       (set (case state_file of None \<Rightarrow> [] | Some ids \<Rightarrow> ids))"

section \<open>The state file of the Update Tracker\<close>

text \<open>
  \<^verbatim>\<open>save_state\<close> is \<^verbatim>\<open>json.dump\<close>: a dict with integer keys becomes a JSON object
  whose keys are the \<^verbatim>\<open>str\<close> of the integers, in the dict's order.
\<close>

definition json_of_entry :: "cache_entry \<Rightarrow> json" where
  "json_of_entry e =
     JObject
       [(''version'', case c_version e of None \<Rightarrow> JNull | Some v \<Rightarrow> JString v),
        (''is_adult'', JBool (c_is_adult e)),
        (''latest_file_update'', case c_latest_file_update e of None \<Rightarrow> JNull | Some n \<Rightarrow> JInt n)]"

definition dump_cache :: "cache \<Rightarrow> json" where
  "dump_cache c = JObject (map (\<lambda>(i, e). (py_str i, json_of_entry e)) c)"

text \<open>
  \<^verbatim>\<open>json.load\<close> builds a dict from the pairs of an object, the last value winning for
  a repeated key. In Python the values of the loaded cache stay untyped dicts; the
  model reads them into \<open>cache_entry\<close> at once and refuses, with \<open>TypeError\<close>, an entry
  that has not the three fields \<^verbatim>\<open>updates\<close> writes.
\<close>

definition entry_of_json :: "json \<Rightarrow> cache_entry option" where
  "entry_of_json j =
     (case j of
        JObject kvs \<Rightarrow>
          (let d = map_of (dict_of_items kvs) in
           case (d ''version'', d ''is_adult'', d ''latest_file_update'') of
             (Some v, Some (JBool a), Some u) \<Rightarrow>
               (case (case v of JNull \<Rightarrow> Some None | JString x \<Rightarrow> Some (Some x) | _ \<Rightarrow> None,
                      case u of JNull \<Rightarrow> Some None | JInt n \<Rightarrow> Some (Some n) | _ \<Rightarrow> None) of
                  (Some v', Some u') \<Rightarrow>
                    Some \<lparr>c_version = v', c_is_adult = a, c_latest_file_update = u'\<rparr>
                | _ \<Rightarrow> None)
           | _ \<Rightarrow> None)
      | _ \<Rightarrow> None)"

text \<open>The pairs of \<^verbatim>\<open>{int(mod_id): value for mod_id, value in ....items()}\<close>.\<close>

fun int_keys :: "(string \<times> json) list \<Rightarrow> error + (int \<times> cache_entry) list" where
  "int_keys [] = Inr []"
| "int_keys ((k, v) # kvs) =
     (case py_int k of
        None \<Rightarrow> Inl ValueError
      | Some i \<Rightarrow>
          (case entry_of_json v of
             None \<Rightarrow> Inl TypeError
           | Some e \<Rightarrow> (case int_keys kvs of Inl err \<Rightarrow> Inl err | Inr rest \<Rightarrow> Inr ((i, e) # rest))))"

text \<open>
  Lines 164 to 166. The file is \<open>None\<close> when it does not exist. \<^verbatim>\<open>or {}\<close> replaces
  every falsy document by the empty dict; \<^verbatim>\<open>.items()\<close> raises on any other document
  that is no object.
\<close>

definition load_cache :: "json option \<Rightarrow> error + cache" where
  "load_cache state_file =
     (case state_file of
        None \<Rightarrow> Inr []
      | Some (JObject kvs) \<Rightarrow>
          (case int_keys (dict_of_items kvs) of
             Inl err \<Rightarrow> Inl err
           | Inr items \<Rightarrow> Inr (dict_of_items items))
      | Some JNull \<Rightarrow> Inr []
      | Some (JBool b) \<Rightarrow> (if b then Inl AttributeError else Inr [])
      | Some (JInt n) \<Rightarrow> (if n = 0 then Inr [] else Inl AttributeError)
      | Some (JString x) \<Rightarrow> (if x = [] then Inr [] else Inl AttributeError)
      | Some (JArray xs) \<Rightarrow> (if xs = [] then Inr [] else Inl AttributeError))"

section \<open>The Update Tracker (\<^verbatim>\<open>updates\<close>)\<close>

record upd_state =
  local_cache :: cache
  mods_with_new_version :: "row list"
  upd_trace :: "event list"

text \<open>\<^verbatim>\<open>{mod["mod_id"]: mod["latest_file_update"] for mod in updated_mods}\<close>.\<close>

definition updated_mod_data :: "updated_mod list \<Rightarrow> (int \<rightharpoonup> int)" where
  "updated_mod_data updated_mods =
     foldl (\<lambda>d m. d(u_mod_id m \<mapsto> u_latest_file_update m)) Map.empty updated_mods"

definition fetch_tracked_mods :: "world \<Rightarrow> string \<Rightarrow> error + tracked_mod list" where
  "fetch_tracked_mods w game_domain_name =
     (case tracked w of
        Inl e \<Rightarrow> Inl e
      | Inr mods \<Rightarrow>
          Inr (if game_domain_name \<noteq> [] then
                 filter (\<lambda>m. t_domain_name m = game_domain_name) mods
               else mods))"

text \<open>
  The comprehension of line 198, element by element in the order of the fetched list.
  \<^verbatim>\<open>not hide_adult_content or not mod["is_adult"]\<close> reads the key only when the
  policy is on, and the subscript raises on the first element that lacks it.
\<close>

fun adult_filter :: "bool \<Rightarrow> tracked_mod list \<Rightarrow> error + int list" where
  "adult_filter hide_adult_content [] = Inr []"
| "adult_filter hide_adult_content (m # ms) =
     (if \<not> hide_adult_content then
        (case adult_filter hide_adult_content ms of
           Inl e \<Rightarrow> Inl e
         | Inr ids \<Rightarrow> Inr (t_mod_id m # ids))
      else
        (case t_is_adult m of
           None \<Rightarrow> Inl (KeyError ''is_adult'')
         | Some adult \<Rightarrow>
             (case adult_filter hide_adult_content ms of
                Inl e \<Rightarrow> Inl e
              | Inr ids \<Rightarrow> Inr (if \<not> adult then t_mod_id m # ids else ids))))"

text \<open>
  \<^verbatim>\<open>tracked_mod_ids\<close> is a Python set and the loops iterate over it. The order in
  which a set of integers is iterated is the interpreter's business, so it is the
  parameter \<open>set_order\<close>: the list in which the set built from the given elements is
  iterated.
\<close>

definition tracked_mod_ids ::
  "bool \<Rightarrow> (int list \<Rightarrow> int list) \<Rightarrow> tracked_mod list \<Rightarrow> error + int list" where
  "tracked_mod_ids hide_adult_content set_order tracked_mods =
     (case adult_filter hide_adult_content tracked_mods of
        Inl e \<Rightarrow> Inl e
      | Inr ids \<Rightarrow> Inr (set_order ids))"

text \<open>The truth value of an optional integer: \<^verbatim>\<open>None\<close> and \<^verbatim>\<open>0\<close> are false.\<close>

definition truthy_int :: "int option \<Rightarrow> bool" where
  "truthy_int v = (case v of None \<Rightarrow> False | Some n \<Rightarrow> n \<noteq> 0)"

definition update_text :: "string \<Rightarrow> mod_info \<Rightarrow> int \<Rightarrow> string \<Rightarrow> string \<Rightarrow> changelogs \<Rightarrow> string" where
  "update_text mod_name d i old_version new_version nvs =
     ''<b>'' @ mod_name @ ''</b>'' @ nl @ author d @ '' - Version '' @ old_version @ '' -> ''
       @ new_version @ nl @ ''Link: '' @ mod_link (domain_name d) i @ nl @ ''Changelog:'' @ nl
       @ changelog_text nvs"

definition update_row :: "string \<Rightarrow> mod_info \<Rightarrow> int \<Rightarrow> string \<Rightarrow> string \<Rightarrow> row" where
  "update_row mod_name d i old_version v =
     UpdatedRow i (author d) mod_name (mod_link (domain_name d) i)
       (if old_version \<noteq> [] then old_version else ''N/A'') v"

text \<open>
  Lines 221 to 256, entered when the version change is confirmed. The subscript
  \<^verbatim>\<open>mod_details['name']\<close> is evaluated while the message is built, after the
  changelogs were fetched and before anything is sent.
\<close>

definition notify_update ::
  "world \<Rightarrow> int \<Rightarrow> string \<Rightarrow> string \<Rightarrow> mod_info \<Rightarrow> upd_state \<Rightarrow> error option \<times> upd_state" where
  "notify_update w i old_version new_version d s =
     (let s1 = s\<lparr>upd_trace := upd_trace s @ [FetchChangelogs i]\<rparr> in
      case changelogs_by_id w i of
        Inl e \<Rightarrow> (Some e, s1)
      | Inr cl \<Rightarrow>
          (let nvs = new_versions old_version cl in
           case name d of
             None \<Rightarrow> (Some (KeyError ''name''), s1)
           | Some mod_name \<Rightarrow>
               (let text = update_text mod_name d i old_version new_version nvs;
                    s2 = s1\<lparr>upd_trace := upd_trace s1 @ [Notify i text]\<rparr>
                in case telegram w text of
                     Some e \<Rightarrow> (Some e, s2)
                   | None \<Rightarrow>
                       (None, s2\<lparr>mods_with_new_version :=
                                   mods_with_new_version s2
                                     @ map (update_row mod_name d i old_version) (map fst nvs)\<rparr>))))"

text \<open>
  The body of the \<^verbatim>\<open>for\<close> loop of a steady-state cycle (lines 201 to 262).
  \<^verbatim>\<open>old_version and new_version\<close> holds when both are strings and neither is empty.
\<close>

definition updates_item :: "world \<Rightarrow> (int \<rightharpoonup> int) \<Rightarrow> int \<Rightarrow> upd_state \<Rightarrow> error option \<times> upd_state" where
  "updates_item w updated_data i s =
     (let cached_latest_file_update =
            (case map_of (local_cache s) i of None \<Rightarrow> None | Some c \<Rightarrow> c_latest_file_update c);
          new_latest_file_update = updated_data i
      in
      case map_of (local_cache s) i of
        None \<Rightarrow>
          (let s1 = s\<lparr>upd_trace := upd_trace s @ [FetchMod i]\<rparr> in
           case mod_by_id w i of
             Inl e \<Rightarrow> (Some e, s1)
           | Inr d \<Rightarrow>
               (None, s1\<lparr>local_cache :=
                           AList.update i
                             \<lparr>c_version = version d, c_is_adult = contains_adult_content d,
                              c_latest_file_update = new_latest_file_update\<rparr>
                             (local_cache s1)\<rparr>))
      | Some c \<Rightarrow>
          if truthy_int new_latest_file_update
             \<and> cached_latest_file_update \<noteq> new_latest_file_update then
            (let s1 = s\<lparr>upd_trace := upd_trace s @ [FetchMod i]\<rparr> in
             case mod_by_id w i of
               Inl e \<Rightarrow> (Some e, s1)
             | Inr d \<Rightarrow>
                 (let new_version = version d; old_version = c_version c in
                  case (case (old_version, new_version) of
                          (Some ov, Some nv) \<Rightarrow>
                            if ov \<noteq> [] \<and> nv \<noteq> [] \<and> ov \<noteq> nv
                            then notify_update w i ov nv d s1 else (None, s1)
                        | _ \<Rightarrow> (None, s1)) of
                    (Some e, s2) \<Rightarrow> (Some e, s2)
                  | (None, s2) \<Rightarrow>
                      (None, s2\<lparr>local_cache :=
                                  AList.update i
                                    \<lparr>c_version = new_version,
                                     c_is_adult = contains_adult_content d,
                                     c_latest_file_update = new_latest_file_update\<rparr>
                                    (local_cache s2)\<rparr>)))
          else (None, s))"

fun updates_for :: "world \<Rightarrow> (int \<rightharpoonup> int) \<Rightarrow> int list \<Rightarrow> upd_state \<Rightarrow> error option \<times> upd_state" where
  "updates_for w updated_data [] s = (None, s)"
| "updates_for w updated_data (i # ids) s =
     (case updates_item w updated_data i s of
        (Some e, s') \<Rightarrow> (Some e, s')
      | (None, s') \<Rightarrow> updates_for w updated_data ids s')"

text \<open>The body of the \<^verbatim>\<open>try\<close> statement (lines 191 to 264).\<close>

definition updates_body ::
  "bool \<Rightarrow> string \<Rightarrow> (int list \<Rightarrow> int list) \<Rightarrow> world \<Rightarrow> upd_state \<Rightarrow> error option \<times> upd_state" where
  "updates_body hide_adult_content game_domain_name set_order w s =
     (let s1 = s\<lparr>upd_trace := upd_trace s @ [FetchUpdated]\<rparr> in
      case updated w of
        Inl e \<Rightarrow> (Some e, s1)
      | Inr updated_mods \<Rightarrow>
          (let s2 = s1\<lparr>upd_trace := upd_trace s1 @ [FetchTracked]\<rparr> in
           case fetch_tracked_mods w game_domain_name of
             Inl e \<Rightarrow> (Some e, s2)
           | Inr tracked_mods \<Rightarrow>
               (case tracked_mod_ids hide_adult_content set_order tracked_mods of
                  Inl e \<Rightarrow> (Some e, s2)
                | Inr ids \<Rightarrow>
                    (case updates_for w (updated_mod_data updated_mods) ids s2 of
                       (Some e, s3) \<Rightarrow> (Some e, s3)
                     | (None, s3) \<Rightarrow>
                         (case write_state w of
                            Some e \<Rightarrow> (Some e, s3)
                          | None \<Rightarrow>
                              (None, s3\<lparr>upd_trace :=
                                          upd_trace s3
                                            @ [SaveCache (dump_cache (local_cache s3))]\<rparr>))))))"

text \<open>
  One pass of the \<^verbatim>\<open>while\<close> loop (lines 190 to 274): the \<^verbatim>\<open>try\<close> statement with its
  handler, then the table. \<^verbatim>\<open>local_cache\<close> is changed in place, so what the body did
  to it before an exception stays.
\<close>

definition updates_cycle ::
  "bool \<Rightarrow> string \<Rightarrow> (int list \<Rightarrow> int list) \<Rightarrow> world \<Rightarrow> cache \<Rightarrow> cache \<times> event list" where
  "updates_cycle hide_adult_content game_domain_name set_order w c =
     (case updates_body hide_adult_content game_domain_name set_order w
             \<lparr>local_cache = c, mods_with_new_version = [], upd_trace = []\<rparr> of
        (Some e, s) \<Rightarrow>
          (local_cache s, upd_trace s @ [LogError e, Report (mods_with_new_version s)])
      | (None, s) \<Rightarrow> (local_cache s, upd_trace s @ [Report (mods_with_new_version s)]))"

fun updates_loop ::
  "bool \<Rightarrow> bool \<Rightarrow> string \<Rightarrow> (int list \<Rightarrow> int list) \<Rightarrow> world list \<Rightarrow> cache
     \<Rightarrow> status \<times> cache \<times> event list" where
  "updates_loop hide_adult_content loop game_domain_name set_order [] c = (Running, c, [])"
| "updates_loop hide_adult_content loop game_domain_name set_order (w # ws) c =
     (case updates_cycle hide_adult_content game_domain_name set_order w c of
        (c', t) \<Rightarrow>
          if loop then
            (case updates_loop hide_adult_content loop game_domain_name set_order ws c' of
               (st, c'', t') \<Rightarrow> (st, c'', t @ t'))
          else (Exited, c', t))"

text \<open>The initial population (lines 172 to 187), outside the \<^verbatim>\<open>try\<close> statement.\<close>

definition bootstrap_item :: "world \<Rightarrow> (int \<rightharpoonup> int) \<Rightarrow> int \<Rightarrow> upd_state \<Rightarrow> error option \<times> upd_state" where
  "bootstrap_item w updated_data i s =
     (let s1 = s\<lparr>upd_trace := upd_trace s @ [FetchMod i]\<rparr> in
      case mod_by_id w i of
        Inl e \<Rightarrow> (Some e, s1)
      | Inr mod_info \<Rightarrow>
          (None, s1\<lparr>local_cache :=
                      AList.update i
                        \<lparr>c_version = version mod_info,
                         c_is_adult = contains_adult_content mod_info,
                         c_latest_file_update = updated_data i\<rparr>
                        (local_cache s1)\<rparr>))"

fun bootstrap_for :: "world \<Rightarrow> (int \<rightharpoonup> int) \<Rightarrow> int list \<Rightarrow> upd_state \<Rightarrow> error option \<times> upd_state" where
  "bootstrap_for w updated_data [] s = (None, s)"
| "bootstrap_for w updated_data (i # ids) s =
     (case bootstrap_item w updated_data i s of
        (Some e, s') \<Rightarrow> (Some e, s')
      | (None, s') \<Rightarrow> bootstrap_for w updated_data ids s')"

definition bootstrap ::
  "string \<Rightarrow> (int list \<Rightarrow> int list) \<Rightarrow> world \<Rightarrow> cache \<Rightarrow> error option \<times> cache \<times> event list" where
  "bootstrap game_domain_name set_order w c =
     (case updated w of
        Inl e \<Rightarrow> (Some e, c, [FetchUpdated])
      | Inr updated_mods \<Rightarrow>
          (case fetch_tracked_mods w game_domain_name of
             Inl e \<Rightarrow> (Some e, c, [FetchUpdated, FetchTracked])
           | Inr tracked_mods \<Rightarrow>
               (case bootstrap_for w (updated_mod_data updated_mods)
                       (set_order (map t_mod_id tracked_mods))
                       \<lparr>local_cache = c, mods_with_new_version = [],
                        upd_trace = [FetchUpdated, FetchTracked]\<rparr> of
                  (Some e, s) \<Rightarrow> (Some e, local_cache s, upd_trace s)
                | (None, s) \<Rightarrow>
                    (case write_state w of
                       Some e \<Rightarrow> (Some e, local_cache s, upd_trace s)
                     | None \<Rightarrow>
                         (None, local_cache s,
                          upd_trace s @ [SaveCache (dump_cache (local_cache s))])))))"

text \<open>
  \<^verbatim>\<open>updates\<close>: \<open>w0\<close> is the world at the time of the initial population, \<open>ws\<close> are
  the worlds of the cycles that follow.
\<close>

definition updates ::
  "bool \<Rightarrow> bool \<Rightarrow> string \<Rightarrow> (int list \<Rightarrow> int list) \<Rightarrow> json option \<Rightarrow> world \<Rightarrow> world list
     \<Rightarrow> status \<times> cache \<times> event list" where
  "updates hide_adult_content loop game_domain_name set_order state_file w0 ws =
     (case load_cache state_file of
        Inl e \<Rightarrow> (Aborted e, [], [])
      | Inr c \<Rightarrow>
          (case (if c = [] then bootstrap game_domain_name set_order w0 c else (None, c, [])) of
             (Some e, c', t) \<Rightarrow> (Aborted e, c', t)
           | (None, c', t) \<Rightarrow>
               (case updates_loop hide_adult_content loop game_domain_name set_order ws c' of
                  (st, c'', t') \<Rightarrow> (st, c'', t @ t'))))"

section \<open>Observations and example inputs\<close>

text \<open>The notifications among the events of a trace, in order.\<close>

fun notifications :: "event list \<Rightarrow> (int \<times> string) list" where
  "notifications [] = []"
| "notifications (Notify i text # evs) = (i, text) # notifications evs"
| "notifications (ev # evs) = notifications evs"


definition example_mod :: mod_info where
  "example_mod =
     \<lparr>mod_id = 7, name = Some ''Lantern'', author = ''ann'', version = Some ''1.2'',
      domain_name = ''starfield'', available = True, contains_adult_content = False\<rparr>"

definition example_adult_mod :: mod_info where
  "example_adult_mod =
     \<lparr>mod_id = 8, name = None, author = ''bob'', version = Some ''0.1'',
      domain_name = ''starfield'', available = True, contains_adult_content = True\<rparr>"

definition example_pending_mod :: mod_info where
  "example_pending_mod =
     \<lparr>mod_id = 5, name = Some ''Draft'', author = ''cy'', version = None,
      domain_name = ''starfield'', available = False, contains_adult_content = False\<rparr>"

definition example_changelogs :: changelogs where
  "example_changelogs =
     [(''1.0'', [''first release'']), (''1.1'', [''fix A'']), (''1.2'', [''fix B''])]"

definition example_world :: world where
  "example_world =
     \<lparr>latest_added = Inr [example_adult_mod, example_mod, example_pending_mod],
      updated = Inr [\<lparr>u_mod_id = 7, u_latest_file_update = 200\<rparr>],
      tracked = Inr [\<lparr>t_mod_id = 7, t_domain_name = ''starfield'', t_is_adult = None\<rparr>],
      mod_by_id = (\<lambda>i. if i = 7 then Inr example_mod else Inl RequestError),
      changelogs_by_id = (\<lambda>i. if i = 7 then Inr example_changelogs else Inl RequestError),
      telegram = (\<lambda>text. None),
      write_state = None\<rparr>"

text \<open>A cache that knows mod 7 at the given version, with the given adult flag.\<close>

definition example_cache :: "string \<Rightarrow> bool \<Rightarrow> cache" where
  "example_cache v adult =
     [(7, \<lparr>c_version = Some v, c_is_adult = adult, c_latest_file_update = Some 100\<rparr>)]"


text \<open>The events that are about mod \<open>i\<close>: a fetch of it, or a notification for it.\<close>

fun concerns :: "int \<Rightarrow> event \<Rightarrow> bool" where
  "concerns i (FetchMod j) = (j = i)"
| "concerns i (FetchChangelogs j) = (j = i)"
| "concerns i (Notify j msg) = (j = i)"
| "concerns i ev = False"

text \<open>The example world, tracking mod 9 as well, whose details cannot be fetched.\<close>

definition failing_world :: world where
  "failing_world =
     example_world\<lparr>tracked := Inr [\<lparr>t_mod_id = 7, t_domain_name = ''starfield'', t_is_adult = None\<rparr>,
                                   \<lparr>t_mod_id = 9, t_domain_name = ''starfield'', t_is_adult = None\<rparr>]\<rparr>"

text \<open>A world in which every remote call raises.\<close>

definition offline_world :: world where
  "offline_world =
     \<lparr>latest_added = Inl RequestError, updated = Inl RequestError, tracked = Inl RequestError,
      mod_by_id = (\<lambda>i. Inl RequestError), changelogs_by_id = (\<lambda>i. Inl RequestError),
      telegram = (\<lambda>msg. Some RequestError), write_state = None\<rparr>"

text \<open>A mod like the example mod, with identifier 9.\<close>

definition example_new_mod :: mod_info where
  "example_new_mod = example_mod\<lparr>mod_id := 9\<rparr>"

text \<open>
  A world that lists the adult mod 8 and mod 9 as latest additions and in which
  \<^verbatim>\<open>requests.post\<close> raises, and the same world with the messaging endpoint back.
\<close>

definition send_failing_world :: world where
  "send_failing_world =
     example_world\<lparr>latest_added := Inr [example_adult_mod, example_new_mod],
                    telegram := (\<lambda>msg. Some RequestError)\<rparr>"

definition send_restored_world :: world where
  "send_restored_world =
     example_world\<lparr>latest_added := Inr [example_adult_mod, example_new_mod]\<rparr>"

text \<open>The example world once mod 5 has become available.\<close>

definition released_mod :: mod_info where
  "released_mod = example_pending_mod\<lparr>available := True\<rparr>"

definition released_world :: world where
  "released_world =
     example_world\<lparr>latest_added := Inr [example_adult_mod, example_mod, released_mod]\<rparr>"

section \<open>Properties of the Python helpers\<close>

lemma update_fresh: "k \<notin> fst ` set d \<Longrightarrow> AList.update k v d = d @ [(k, v)]"
  by (induction d) auto

lemma foldl_update_distinct:
  "distinct (map fst (acc @ xs)) \<Longrightarrow>
   foldl (\<lambda>d kv. AList.update (fst kv) (snd kv) d) acc xs = acc @ xs"
proof (induction xs arbitrary: acc)
  case Nil
  then show ?case by simp
next
  case (Cons x xs)
  have fresh: "fst x \<notin> fst ` set acc" using Cons.prems by auto
  have "distinct (map fst ((acc @ [x]) @ xs))" using Cons.prems by simp
  from Cons.IH [OF this] show ?case
    by (simp add: update_fresh [OF fresh])
qed

lemma dict_of_items_distinct: "distinct (map fst xs) \<Longrightarrow> dict_of_items xs = xs"
  using foldl_update_distinct [of "[]" xs] by (simp add: dict_of_items_def)



lemma notifications_append: "notifications (xs @ ys) = notifications xs @ notifications ys"
  by (induction xs rule: notifications.induct) auto

lemma notifications_set: "(i, text) \<in> set (notifications evs) \<longleftrightarrow> Notify i text \<in> set evs"
  by (induction evs rule: notifications.induct) auto

section \<open>Changelog entries reported for a confirmed version change\<close>












section \<open>The Addition Tracker: what a cycle adds and notifies\<close>

lemma additions_item_skip:
  "mod_id m \<in> seen_mods s \<or> \<not> available m \<Longrightarrow> additions_item h w m s = (None, s)"
  by (auto simp: additions_item_def)

lemma additions_item_seen:
  "additions_item h w m s = (r, s') \<Longrightarrow>
     seen_mods s' = (if available m then insert (mod_id m) (seen_mods s) else seen_mods s)"
  by (auto simp: additions_item_def Let_def split: if_splits)

lemma additions_item_trace:
  "additions_item h w m s = (r, s') \<Longrightarrow>
     add_trace s' = add_trace s \<or>
     (add_trace s' = add_trace s @ [Notify (mod_id m) (addition_text m)] \<and> mod_id m \<notin> seen_mods s
        \<and> available m \<and> \<not> (h \<and> contains_adult_content m))"
  by (auto simp: additions_item_def Let_def split: if_splits)

lemma additions_for_seen_mono:
  "additions_for h w ms s = (r, s') \<Longrightarrow> seen_mods s \<subseteq> seen_mods s'"
proof (induction ms arbitrary: s)
  case Nil
  then show ?case by simp
next
  case (Cons m ms)
  obtain r1 s1 where it: "additions_item h w m s = (r1, s1)" by (cases "additions_item h w m s")
  have sub: "seen_mods s \<subseteq> seen_mods s1" using additions_item_seen [OF it] by auto
  show ?case
  proof (cases r1)
    case None
    with Cons.prems it have "additions_for h w ms s1 = (r, s')" by simp
    from Cons.IH [OF this] sub show ?thesis by blast
  next
    case (Some e)
    with Cons.prems it have "s' = s1" by simp
    with sub show ?thesis by simp
  qed
qed

lemma additions_for_available_seen:
  "additions_for h w ms s = (None, s') \<Longrightarrow> m \<in> set ms \<Longrightarrow> available m \<Longrightarrow> mod_id m \<in> seen_mods s'"
proof (induction ms arbitrary: s)
  case Nil
  then show ?case by simp
next
  case (Cons x ms)
  obtain r1 s1 where it: "additions_item h w x s = (r1, s1)" by (cases "additions_item h w x s")
  with Cons.prems(1) have r1: "r1 = None" and rest: "additions_for h w ms s1 = (None, s')"
    by (auto split: option.splits)
  show ?case
  proof (cases "m = x")
    case True
    with additions_item_seen [OF it] Cons.prems(3) have "mod_id m \<in> seen_mods s1" by simp
    with additions_for_seen_mono [OF rest] show ?thesis by blast
  next
    case False
    with Cons.prems(2) have "m \<in> set ms" by simp
    from Cons.IH [OF rest this Cons.prems(3)] show ?thesis .
  qed
qed

lemma additions_for_nothing_new:
  "\<forall>m\<in>set ms. mod_id m \<in> seen_mods s \<or> \<not> available m \<Longrightarrow> additions_for h w ms s = (None, s)"
  by (induction ms) (simp_all add: additions_item_skip)

text \<open>
  A notification made by the loop is for an identifier that was not seen, of a mod
  that is available and passes the adult-content filter.
\<close>

lemma additions_for_notify:
  "additions_for h w ms s = (r, s') \<Longrightarrow> Notify i text \<in> set (add_trace s') \<Longrightarrow>
     Notify i text \<in> set (add_trace s) \<or>
     (i \<notin> seen_mods s \<and> (\<exists>m\<in>set ms. mod_id m = i \<and> available m \<and> \<not> (h \<and> contains_adult_content m)))"
proof (induction ms arbitrary: s)
  case Nil
  then show ?case by simp
next
  case (Cons x ms)
  obtain r1 s1 where it: "additions_item h w x s = (r1, s1)" by (cases "additions_item h w x s")
  have sub: "seen_mods s \<subseteq> seen_mods s1" using additions_item_seen [OF it] by auto
  have step: "Notify i text \<in> set (add_trace s1) \<Longrightarrow>
     Notify i text \<in> set (add_trace s) \<or>
     (i \<notin> seen_mods s \<and> mod_id x = i \<and> available x \<and> \<not> (h \<and> contains_adult_content x))"
    using additions_item_trace [OF it] by auto
  show ?case
  proof (cases r1)
    case (Some e)
    with Cons.prems it have "s' = s1" by simp
    with Cons.prems(2) step show ?thesis by auto
  next
    case None
    with Cons.prems it have rest: "additions_for h w ms s1 = (r, s')" by simp
    from Cons.IH [OF rest Cons.prems(2)] step sub show ?thesis by auto
  qed
qed

lemma additions_for_seen_only_available:
  "additions_for h w ms s = (r, s') \<Longrightarrow> i \<in> seen_mods s' \<Longrightarrow>
     i \<in> seen_mods s \<or> (\<exists>m\<in>set ms. mod_id m = i \<and> available m)"
proof (induction ms arbitrary: s)
  case Nil
  then show ?case by simp
next
  case (Cons x ms)
  obtain r1 s1 where it: "additions_item h w x s = (r1, s1)" by (cases "additions_item h w x s")
  note seen1 = additions_item_seen [OF it]
  show ?case
  proof (cases r1)
    case (Some e)
    with Cons.prems it have "s' = s1" by simp
    with Cons.prems(2) seen1 show ?thesis by (auto split: if_splits)
  next
    case None
    with Cons.prems it have rest: "additions_for h w ms s1 = (r, s')" by simp
    from Cons.IH [OF rest Cons.prems(2)] seen1 show ?thesis by (auto split: if_splits)
  qed
qed

text \<open>The cycle in terms of the loop.\<close>

lemma additions_cycleE:
  assumes "additions_cycle h w seen = (r, seen', t)" and "latest_added w = Inr mods"
  obtains r0 s where
    "additions_for h w (sort_key mod_id mods)
       \<lparr>seen_mods = seen, new_mods_data = [], add_trace = [FetchLatestAdded]\<rparr> = (r0, s)"
    and "seen' = seen_mods s"
    and "r = None \<Longrightarrow> r0 = None"
    and "set t \<subseteq> set (add_trace s) \<union> {Report (new_mods_data s), SaveSeen (seen_mods s)}"
proof -
  obtain r0 s where f: "additions_for h w (sort_key mod_id mods)
       \<lparr>seen_mods = seen, new_mods_data = [], add_trace = [FetchLatestAdded]\<rparr> = (r0, s)"
    by (cases "additions_for h w (sort_key mod_id mods)
       \<lparr>seen_mods = seen, new_mods_data = [], add_trace = [FetchLatestAdded]\<rparr>")
  show ?thesis
  proof (rule that [OF f])
    show "seen' = seen_mods s" using assms f
      by (auto simp: additions_cycle_def split: option.splits)
    show "r = None \<Longrightarrow> r0 = None" using assms f
      by (auto simp: additions_cycle_def split: option.splits)
    show "set t \<subseteq> set (add_trace s) \<union> {Report (new_mods_data s), SaveSeen (seen_mods s)}"
      using assms f by (auto simp: additions_cycle_def split: option.splits)
  qed
qed

lemma additions_cycle_seen_no_notify:
  assumes "additions_cycle h w seen = (r, seen', t)" and "i \<in> seen"
  shows "Notify i text \<notin> set t"
proof (cases "latest_added w")
  case (Inl e)
  with assms show ?thesis by (auto simp: additions_cycle_def)
next
  case (Inr mods)
  from additions_cycleE [OF assms(1) Inr] obtain r0 s where
    f: "additions_for h w (sort_key mod_id mods)
       \<lparr>seen_mods = seen, new_mods_data = [], add_trace = [FetchLatestAdded]\<rparr> = (r0, s)"
    and t: "set t \<subseteq> set (add_trace s) \<union> {Report (new_mods_data s), SaveSeen (seen_mods s)}"
    by blast
  show ?thesis
  proof
    assume "Notify i text \<in> set t"
    with t have "Notify i text \<in> set (add_trace s)" by auto
    from additions_for_notify [OF f this] assms(2) show False by simp
  qed
qed

lemma additions_cycle_seen_mono:
  assumes "additions_cycle h w seen = (r, seen', t)"
  shows "seen \<subseteq> seen'"
proof (cases "latest_added w")
  case (Inl e)
  with assms show ?thesis by (auto simp: additions_cycle_def)
next
  case (Inr mods)
  from additions_cycleE [OF assms(1) Inr] obtain r0 s where
    f: "additions_for h w (sort_key mod_id mods)
       \<lparr>seen_mods = seen, new_mods_data = [], add_trace = [FetchLatestAdded]\<rparr> = (r0, s)"
    and s: "seen' = seen_mods s"
    by blast
  from additions_for_seen_mono [OF f] s show ?thesis by simp
qed

lemma additions_loop_seen_no_notify:
  "additions_loop h lp ws seen = (st, seen', t) \<Longrightarrow> i \<in> seen \<Longrightarrow> Notify i text \<notin> set t"
proof (induction ws arbitrary: seen st seen' t)
  case Nil
  then show ?case by simp
next
  case (Cons w ws)
  obtain r1 seen1 t1 where c: "additions_cycle h w seen = (r1, seen1, t1)"
    by (cases "additions_cycle h w seen") auto
  have n1: "Notify i text \<notin> set t1" by (rule additions_cycle_seen_no_notify [OF c Cons.prems(2)])
  have i1: "i \<in> seen1" using additions_cycle_seen_mono [OF c] Cons.prems(2) by blast
  show ?case
  proof (cases "r1 = None \<and> lp")
    case False
    with Cons.prems(1) c have "t = t1" by (auto split: option.splits if_splits)
    with n1 show ?thesis by simp
  next
    case True
    obtain st2 seen2 t2 where l: "additions_loop h lp ws seen1 = (st2, seen2, t2)"
      by (cases "additions_loop h lp ws seen1") auto
    from True Cons.prems(1) c l have "t = t1 @ t2" by simp
    with n1 Cons.IH [OF l i1] show ?thesis by simp
  qed
qed

text \<open>
  Claim C4. After a cycle that ran to its end from any seen-set, a second cycle on the
  same world, from the seen-set the first one produced, fetches the list, prints the
  empty table and saves the same set: it makes no notification. This holds whatever the
  adult-content flag of the second cycle is.
\<close>

theorem additions_idempotent:
  assumes "additions_cycle hide w seen = (None, seen', t)"
  shows "additions_cycle hide' w seen' = (None, seen', [FetchLatestAdded, Report [], SaveSeen seen'])
         \<and> notifications (snd (snd (additions_cycle hide' w seen'))) = []"
proof -
  from assms obtain mods where mods: "latest_added w = Inr mods"
    by (cases "latest_added w") (auto simp: additions_cycle_def)
  let ?ms = "sort_key mod_id mods"
  let ?s0 = "\<lparr>seen_mods = seen, new_mods_data = [], add_trace = [FetchLatestAdded]\<rparr>"
  obtain r0 s where f: "additions_for hide w ?ms ?s0 = (r0, s)"
    by (cases "additions_for hide w ?ms ?s0")
  from assms mods f have r0: "r0 = None" and wr: "write_state w = None" and s: "seen' = seen_mods s"
    by (auto simp: additions_cycle_def split: option.splits)
  let ?s1 = "\<lparr>seen_mods = seen', new_mods_data = [], add_trace = [FetchLatestAdded]\<rparr>"
  have "\<forall>m\<in>set ?ms. mod_id m \<in> seen_mods ?s1 \<or> \<not> available m"
    using additions_for_available_seen [of hide w ?ms ?s0 s] f r0 s by auto
  then have "additions_for hide' w ?ms ?s1 = (None, ?s1)"
    by (rule additions_for_nothing_new)
  then have "additions_cycle hide' w seen' = (None, seen', [FetchLatestAdded, Report [], SaveSeen seen'])"
    by (simp add: additions_cycle_def mods wr)
  then show ?thesis by simp
qed

text \<open>
  Witness for C4: the example world from the empty seen-set. The first cycle notifies
  mods 7 and 8, the second nothing.
\<close>

theorem additions_idempotent_witness:
  "additions_cycle False example_world {} =
     (None, {7, 8},
      [FetchLatestAdded, Notify 7 (addition_text example_mod),
       Notify 8 (addition_text example_adult_mod),
       Report [addition_row example_mod, addition_row example_adult_mod], SaveSeen {7, 8}])
   \<and> additions_cycle False example_world {7, 8} =
       (None, {7, 8}, [FetchLatestAdded, Report [], SaveSeen {7, 8}])
   \<and> notifications (snd (snd (additions_cycle False example_world {7, 8}))) = []"
proof -
  have first: "additions_cycle False example_world {} =
     (None, {7, 8},
      [FetchLatestAdded, Notify 7 (addition_text example_mod),
       Notify 8 (addition_text example_adult_mod),
       Report [addition_row example_mod, addition_row example_adult_mod], SaveSeen {7, 8}])"
    by (simp add: additions_cycle_def example_world_def additions_item_def example_mod_def
          example_adult_mod_def example_pending_mod_def Let_def insert_commute)
  from additions_idempotent [OF first, of False] first show ?thesis by simp
qed

text \<open>
  Claim C5, as the code has it. In a cycle that runs to its end with the adult-content
  filter on, an available mod flagged adult whose identifier was not seen is in the
  seen-set afterwards, and no notification is made for its identifier; nor is one made
  in any later cycle of any run that starts from that seen-set or a larger one, whatever
  its worlds and its filter flag. Identifiers are unique in the remote list; the sixth
  hypothesis asks less, that every entry with this identifier is flagged adult.
\<close>

theorem adult_mod_seen_never_notified:
  assumes "latest_added w = Inr mods" and "m \<in> set mods"
    and "available m" and "contains_adult_content m" and "mod_id m \<notin> seen"
    and "\<forall>m'\<in>set mods. mod_id m' = mod_id m \<longrightarrow> contains_adult_content m'"
    and "additions_cycle True w seen = (None, seen', t)"
  shows "mod_id m \<in> seen'
         \<and> (\<forall>msg. Notify (mod_id m) msg \<notin> set t)
         \<and> (\<forall>hide' loop ws seen''. seen' \<subseteq> seen'' \<longrightarrow>
               (\<forall>msg. Notify (mod_id m) msg
                        \<notin> set (snd (snd (additions_loop hide' loop ws seen'')))))"
proof -
  let ?ms = "sort_key mod_id mods"
  from additions_cycleE [OF assms(7,1)] obtain r0 s where
    f: "additions_for True w ?ms
          \<lparr>seen_mods = seen, new_mods_data = [], add_trace = [FetchLatestAdded]\<rparr> = (r0, s)"
    and s: "seen' = seen_mods s" and r0: "r0 = None"
    and t: "set t \<subseteq> set (add_trace s) \<union> {Report (new_mods_data s), SaveSeen (seen_mods s)}"
    by blast
  have "m \<in> set ?ms" using assms(2) by simp
  with f r0 assms(3) have seen: "mod_id m \<in> seen'"
    using additions_for_available_seen [of True w ?ms _ s m] s by simp
  have quiet: "Notify (mod_id m) msg \<notin> set t" for msg
  proof
    assume "Notify (mod_id m) msg \<in> set t"
    with t have "Notify (mod_id m) msg \<in> set (add_trace s)" by auto
    from additions_for_notify [OF f this] assms(6) show False by auto
  qed
  have later: "Notify (mod_id m) msg \<notin> set (snd (snd (additions_loop hide' loop ws seen'')))"
    if "seen' \<subseteq> seen''" for hide' loop ws seen'' msg
  proof -
    obtain st sn tr where l: "additions_loop hide' loop ws seen'' = (st, sn, tr)"
      by (cases "additions_loop hide' loop ws seen''") auto
    from seen that have "mod_id m \<in> seen''" by blast
    from additions_loop_seen_no_notify [OF l this] l show ?thesis by simp
  qed
  from seen quiet later show ?thesis by blast
qed

text \<open>
  Witness for C5: mod 8 of the example world is flagged adult. The later cycle runs
  with the filter off.
\<close>

theorem adult_mod_seen_never_notified_witness:
  "latest_added example_world = Inr [example_adult_mod, example_mod, example_pending_mod]
   \<and> example_adult_mod \<in> set [example_adult_mod, example_mod, example_pending_mod]
   \<and> available example_adult_mod \<and> contains_adult_content example_adult_mod
   \<and> mod_id example_adult_mod \<notin> {}
   \<and> additions_cycle True example_world {} =
       (None, {7, 8},
        [FetchLatestAdded, Notify 7 (addition_text example_mod),
         Report [addition_row example_mod], SaveSeen {7, 8}])
   \<and> 8 \<in> {7, 8 :: int}
   \<and> (\<forall>msg. Notify 8 msg \<notin> set (snd (snd (additions_loop False True [example_world] {7, 8}))))"
proof -
  have cyc: "additions_cycle True example_world {} =
       (None, {7, 8},
        [FetchLatestAdded, Notify 7 (addition_text example_mod),
         Report [addition_row example_mod], SaveSeen {7, 8}])"
    by (simp add: additions_cycle_def example_world_def additions_item_def example_mod_def
          example_adult_mod_def example_pending_mod_def Let_def insert_commute)
  have la: "latest_added example_world = Inr [example_adult_mod, example_mod, example_pending_mod]"
    by (simp add: example_world_def)
  have mem: "example_adult_mod \<in> set [example_adult_mod, example_mod, example_pending_mod]"
    by simp
  have av: "available example_adult_mod" and ad: "contains_adult_content example_adult_mod"
    and ns: "mod_id example_adult_mod \<notin> {}"
    by (simp_all add: example_adult_mod_def)
  have uniq: "\<forall>m'\<in>set [example_adult_mod, example_mod, example_pending_mod].
               mod_id m' = mod_id example_adult_mod \<longrightarrow> contains_adult_content m'"
    by (simp add: example_adult_mod_def example_mod_def example_pending_mod_def)
  have id8: "mod_id example_adult_mod = 8" by (simp add: example_adult_mod_def)
  note th = adult_mod_seen_never_notified [OF la mem av ad ns uniq cyc]
  from th have later: "\<forall>msg. Notify (mod_id example_adult_mod) msg
      \<notin> set (snd (snd (additions_loop False True [example_world] {7, 8})))"
    by blast
  from th have "mod_id example_adult_mod \<in> {7, 8}" by blast
  with later la mem av ad ns cyc show ?thesis
    by (simp add: id8 del: additions_loop.simps)
qed

text \<open>
  Claim C5 as stated, for every cycle, fails for a cycle that an exception leaves.
  With the filter on, the adult mod 8 is added to the seen-set in memory; sending the
  message for mod 9 raises, nothing catches it, and the run ends before the seen-set is
  saved. The next run finds no state file and, with the filter off, notifies mod 8.
\<close>

theorem adult_mod_renotified_counterexample:
  "available example_adult_mod \<and> contains_adult_content example_adult_mod
   \<and> mod_id example_adult_mod = 8
   \<and> additions_cycle True send_failing_world {}
       = (Some RequestError, {8, 9},
          [FetchLatestAdded, Notify 9 (addition_text example_new_mod)])
   \<and> additions True True None [send_failing_world]
       = (Aborted RequestError, {8, 9},
          [FetchLatestAdded, Notify 9 (addition_text example_new_mod)])
   \<and> additions False True None [send_restored_world]
       = (Running, {8, 9},
          [FetchLatestAdded, Notify 8 (addition_text example_adult_mod),
           Notify 9 (addition_text example_new_mod),
           Report [addition_row example_adult_mod, addition_row example_new_mod],
           SaveSeen {8, 9}])"
  by (simp add: additions_def additions_cycle_def send_failing_world_def send_restored_world_def
        example_world_def additions_item_def example_mod_def example_adult_mod_def
        example_new_mod_def Let_def insert_commute)

lemma additions_for_trace_mono:
  "additions_for h w ms s = (r, s') \<Longrightarrow> set (add_trace s) \<subseteq> set (add_trace s')"
proof (induction ms arbitrary: s)
  case Nil
  then show ?case by simp
next
  case (Cons x ms)
  obtain r1 s1 where it: "additions_item h w x s = (r1, s1)" by (cases "additions_item h w x s")
  have sub: "set (add_trace s) \<subseteq> set (add_trace s1)"
    using additions_item_trace [OF it] by auto
  show ?case
  proof (cases r1)
    case (Some e)
    with Cons.prems it have "s' = s1" by simp
    with sub show ?thesis by simp
  next
    case None
    with Cons.prems it have "additions_for h w ms s1 = (r, s')" by simp
    from Cons.IH [OF this] sub show ?thesis by blast
  qed
qed

text \<open>
  When the loop adds an identifier that only one entry of the list carries, it has run
  its body on that entry: unless the entry is filtered, the notification for it is made.
\<close>

lemma additions_for_added_notified:
  assumes "additions_for h w ms s = (r, s')" and "i \<notin> seen_mods s" and "i \<in> seen_mods s'"
    and "\<forall>x\<in>set ms. mod_id x = i \<longrightarrow> x = m" and "\<not> (h \<and> contains_adult_content m)"
  shows "Notify i (addition_text m) \<in> set (add_trace s')"
  using assms(1,2,4)
proof (induction ms arbitrary: s)
  case Nil
  with assms(3) show ?case by simp
next
  case (Cons x ms)
  obtain r1 s1 where it: "additions_item h w x s = (r1, s1)" by (cases "additions_item h w x s")
  note seen1 = additions_item_seen [OF it]
  have rest: "r1 = None \<Longrightarrow> additions_for h w ms s1 = (r, s')"
    using Cons.prems(1) it by simp
  have stop: "r1 \<noteq> None \<Longrightarrow> s' = s1"
    using Cons.prems(1) it by auto
  show ?case
  proof (cases "mod_id x = i \<and> available x")
    case True
    with Cons.prems(3) have xm: "x = m" by simp
    with True Cons.prems(2) assms(5) it
    have "Notify i (addition_text m) \<in> set (add_trace s1)"
      by (auto simp: additions_item_def Let_def)
    moreover have "set (add_trace s1) \<subseteq> set (add_trace s')"
    proof (cases r1)
      case None
      from additions_for_trace_mono [OF rest [OF None]] show ?thesis .
    next
      case (Some e)
      with stop show ?thesis by simp
    qed
    ultimately show ?thesis by blast
  next
    case False
    with seen1 Cons.prems(2) have unseen1: "i \<notin> seen_mods s1" by (auto split: if_splits)
    show ?thesis
    proof (cases r1)
      case (Some e)
      with stop have "s' = s1" by simp
      with unseen1 assms(3) show ?thesis by simp
    next
      case None
      from Cons.prems(3) have "\<forall>x\<in>set ms. mod_id x = i \<longrightarrow> x = m" by simp
      from Cons.IH [OF rest [OF None] unseen1 this] show ?thesis .
    qed
  qed
qed

lemma additions_cycle_loop:
  assumes "additions_cycle h w seen = (r, seen', t)" and "latest_added w = Inr mods"
  obtains r0 s where
    "additions_for h w (sort_key mod_id mods)
       \<lparr>seen_mods = seen, new_mods_data = [], add_trace = [FetchLatestAdded]\<rparr> = (r0, s)"
    and "seen' = seen_mods s" and "r = None \<Longrightarrow> r0 = None"
    and "set (add_trace s) \<subseteq> set t"
proof -
  obtain r0 s where f: "additions_for h w (sort_key mod_id mods)
       \<lparr>seen_mods = seen, new_mods_data = [], add_trace = [FetchLatestAdded]\<rparr> = (r0, s)"
    by (cases "additions_for h w (sort_key mod_id mods)
       \<lparr>seen_mods = seen, new_mods_data = [], add_trace = [FetchLatestAdded]\<rparr>")
  show ?thesis
  proof (rule that [OF f])
    show "seen' = seen_mods s" using assms f
      by (auto simp: additions_cycle_def split: option.splits)
    show "r = None \<Longrightarrow> r0 = None" using assms f
      by (auto simp: additions_cycle_def split: option.splits)
    show "set (add_trace s) \<subseteq> set t"
      using assms f by (auto simp: additions_cycle_def split: option.splits)
  qed
qed

text \<open>What a cycle does for an identifier that was not seen and that one entry carries.\<close>

lemma additions_cycle_retry:
  assumes "latest_added w = Inr mods" and "m \<in> set mods" and "mod_id m \<notin> seen"
    and "\<forall>x\<in>set mods. mod_id x = mod_id m \<longrightarrow> x = m"
    and "additions_cycle h w seen = (r, seen', t)"
  shows "available m \<Longrightarrow> r = None \<Longrightarrow> mod_id m \<in> seen'"
    and "mod_id m \<in> seen' \<Longrightarrow> \<not> (h \<and> contains_adult_content m) \<Longrightarrow>
           Notify (mod_id m) (addition_text m) \<in> set t"
proof -
  let ?ms = "sort_key mod_id mods"
  from additions_cycle_loop [OF assms(5,1)] obtain r0 s where
    f: "additions_for h w ?ms
          \<lparr>seen_mods = seen, new_mods_data = [], add_trace = [FetchLatestAdded]\<rparr> = (r0, s)"
    and s: "seen' = seen_mods s" and r0: "r = None \<Longrightarrow> r0 = None"
    and t: "set (add_trace s) \<subseteq> set t"
    by blast
  have mem: "m \<in> set ?ms" using assms(2) by simp
  show "mod_id m \<in> seen'" if "available m" "r = None"
    using additions_for_available_seen [of h w ?ms _ s m] f r0 [OF that(2)] mem that(1) s
    by simp
  show "Notify (mod_id m) (addition_text m) \<in> set t"
    if "mod_id m \<in> seen'" "\<not> (h \<and> contains_adult_content m)"
  proof -
    have u: "\<forall>x\<in>set ?ms. mod_id x = mod_id m \<longrightarrow> x = m" using assms(4) by simp
    have "Notify (mod_id m) (addition_text m) \<in> set (add_trace s)"
      using additions_for_added_notified [OF f _ _ u that(2)] assms(3) that(1) s by simp
    with t show ?thesis by blast
  qed
qed

text \<open>
  Claim C6. A mod whose availability flag is false and whose identifier is not in the
  seen-set is not in the seen-set after the cycle, however the cycle ends, and no
  notification is made for its identifier. It is evaluated again by the next cycle,
  whether that cycle starts from the seen-set this one left or, after a restart, from a
  saved part of it: if the mod is then available, a cycle that runs to its end has added
  its identifier, and whenever the identifier was added the notification for the mod was
  made, unless the adult-content filter holds it back; if the mod is still unavailable
  it is skipped once more. Identifiers are unique in the remote list: the fourth
  hypothesis asks less of the first list, that no entry with this identifier is
  available, and the next list is asked to carry the identifier once.
\<close>

theorem unavailable_mod_retried:
  assumes "latest_added w = Inr mods" and "m \<in> set mods" and "mod_id m \<notin> seen"
    and "\<forall>m'\<in>set mods. mod_id m' = mod_id m \<longrightarrow> \<not> available m'"
    and "additions_cycle hide w seen = (r, seen', t)"
  shows "mod_id m \<notin> seen'
         \<and> (\<forall>msg. Notify (mod_id m) msg \<notin> set t)
         \<and> (\<forall>seen0 hide' w' mods' m' r' seen'' t'.
               seen0 \<subseteq> seen' \<and> latest_added w' = Inr mods' \<and> m' \<in> set mods'
               \<and> mod_id m' = mod_id m \<and> (\<forall>x\<in>set mods'. mod_id x = mod_id m \<longrightarrow> x = m')
               \<and> additions_cycle hide' w' seen0 = (r', seen'', t') \<longrightarrow>
               (if available m' then
                  (r' = None \<longrightarrow> mod_id m \<in> seen'')
                  \<and> (mod_id m \<in> seen'' \<and> \<not> (hide' \<and> contains_adult_content m') \<longrightarrow>
                       Notify (mod_id m) (addition_text m') \<in> set t')
                else mod_id m \<notin> seen'' \<and> (\<forall>msg. Notify (mod_id m) msg \<notin> set t')))"
proof -
  have skipped: "mod_id x \<notin> sn' \<and> (\<forall>msg. Notify (mod_id x) msg \<notin> set tr)"
    if "latest_added v = Inr ms" "mod_id x \<notin> sn"
      "\<forall>m'\<in>set ms. mod_id m' = mod_id x \<longrightarrow> \<not> available m'"
      "additions_cycle h v sn = (res, sn', tr)"
    for v ms x sn h res sn' tr
  proof -
    let ?ms = "sort_key mod_id ms"
    from additions_cycleE [OF that(4,1)] obtain r0 s where
      f: "additions_for h v ?ms
            \<lparr>seen_mods = sn, new_mods_data = [], add_trace = [FetchLatestAdded]\<rparr> = (r0, s)"
      and s: "sn' = seen_mods s"
      and t: "set tr \<subseteq> set (add_trace s) \<union> {Report (new_mods_data s), SaveSeen (seen_mods s)}"
      by blast
    have unseen: "mod_id x \<notin> sn'"
    proof
      assume "mod_id x \<in> sn'"
      with s have "mod_id x \<in> seen_mods s" by simp
      from additions_for_seen_only_available [OF f this] that(2,3) show False by auto
    qed
    have quiet: "Notify (mod_id x) msg \<notin> set tr" for msg
    proof
      assume "Notify (mod_id x) msg \<in> set tr"
      with t have "Notify (mod_id x) msg \<in> set (add_trace s)" by auto
      from additions_for_notify [OF f this] that(3) show False by auto
    qed
    from unseen quiet show ?thesis by blast
  qed
  from skipped [OF assms(1,3,4,5)]
  have first: "mod_id m \<notin> seen'" "\<forall>msg. Notify (mod_id m) msg \<notin> set t" by blast+
  have "(if available m' then
                  (r' = None \<longrightarrow> mod_id m \<in> seen'')
                  \<and> (mod_id m \<in> seen'' \<and> \<not> (hide' \<and> contains_adult_content m') \<longrightarrow>
                       Notify (mod_id m) (addition_text m') \<in> set t')
                else mod_id m \<notin> seen'' \<and> (\<forall>msg. Notify (mod_id m) msg \<notin> set t'))"
    if sub: "seen0 \<subseteq> seen'" and la: "latest_added w' = Inr mods'" and mem: "m' \<in> set mods'"
      and id: "mod_id m' = mod_id m" and u: "\<forall>x\<in>set mods'. mod_id x = mod_id m \<longrightarrow> x = m'"
      and cyc: "additions_cycle hide' w' seen0 = (r', seen'', t')"
    for seen0 hide' w' mods' m' r' seen'' t'
  proof (cases "available m'")
    case True
    have ns: "mod_id m' \<notin> seen0" using first(1) sub id by auto
    have u': "\<forall>x\<in>set mods'. mod_id x = mod_id m' \<longrightarrow> x = m'" using u id by simp
    from additions_cycle_retry [OF la mem ns u' cyc] True id show ?thesis by simp
  next
    case False
    have ns: "mod_id m' \<notin> seen0" using first(1) sub id by auto
    have "\<forall>x\<in>set mods'. mod_id x = mod_id m' \<longrightarrow> \<not> available x" using u id False by auto
    from skipped [OF la ns this cyc] False id show ?thesis by simp
  qed
  with first show ?thesis by blast
qed

text \<open>
  Witness for C6: mod 5 of the example world is unavailable and the cycle leaves it
  out; in the next cycle it is available, and that cycle adds and notifies it.
\<close>

theorem unavailable_mod_retried_witness:
  "latest_added example_world = Inr [example_adult_mod, example_mod, example_pending_mod]
   \<and> example_pending_mod \<in> set [example_adult_mod, example_mod, example_pending_mod]
   \<and> mod_id example_pending_mod \<notin> {}
   \<and> additions_cycle False example_world {} =
       (None, {7, 8},
        [FetchLatestAdded, Notify 7 (addition_text example_mod),
         Notify 8 (addition_text example_adult_mod),
         Report [addition_row example_mod, addition_row example_adult_mod], SaveSeen {7, 8}])
   \<and> 5 \<notin> {7, 8 :: int}
   \<and> latest_added released_world = Inr [example_adult_mod, example_mod, released_mod]
   \<and> available released_mod
   \<and> additions_cycle False released_world {7, 8} =
       (None, {5, 7, 8},
        [FetchLatestAdded, Notify 5 (addition_text released_mod),
         Report [addition_row released_mod], SaveSeen {5, 7, 8}])
   \<and> Notify 5 (addition_text released_mod)
       \<in> set [FetchLatestAdded, Notify 5 (addition_text released_mod),
               Report [addition_row released_mod], SaveSeen {5, 7, 8}]"
proof -
  have la: "latest_added example_world = Inr [example_adult_mod, example_mod, example_pending_mod]"
    by (simp add: example_world_def)
  have mem: "example_pending_mod \<in> set [example_adult_mod, example_mod, example_pending_mod]"
    by simp
  have ns: "mod_id example_pending_mod \<notin> {}" by simp
  have un: "\<forall>m'\<in>set [example_adult_mod, example_mod, example_pending_mod].
               mod_id m' = mod_id example_pending_mod \<longrightarrow> \<not> available m'"
    by (simp add: example_adult_mod_def example_mod_def example_pending_mod_def)
  have cyc: "additions_cycle False example_world {} =
       (None, {7, 8},
        [FetchLatestAdded, Notify 7 (addition_text example_mod),
         Notify 8 (addition_text example_adult_mod),
         Report [addition_row example_mod, addition_row example_adult_mod], SaveSeen {7, 8}])"
    by (simp add: additions_cycle_def example_world_def additions_item_def example_mod_def
          example_adult_mod_def example_pending_mod_def Let_def insert_commute)
  have id5: "mod_id example_pending_mod = 5" by (simp add: example_pending_mod_def)
  have la': "latest_added released_world = Inr [example_adult_mod, example_mod, released_mod]"
    by (simp add: released_world_def example_world_def)
  have mem': "released_mod \<in> set [example_adult_mod, example_mod, released_mod]" by simp
  have id': "mod_id released_mod = mod_id example_pending_mod" by (simp add: released_mod_def)
  have u': "\<forall>x\<in>set [example_adult_mod, example_mod, released_mod].
              mod_id x = mod_id example_pending_mod \<longrightarrow> x = released_mod"
    by (simp add: example_adult_mod_def example_mod_def example_pending_mod_def released_mod_def)
  have av: "available released_mod" by (simp add: released_mod_def)
  have cyc': "additions_cycle False released_world {7, 8} =
       (None, {5, 7, 8},
        [FetchLatestAdded, Notify 5 (addition_text released_mod),
         Report [addition_row released_mod], SaveSeen {5, 7, 8}])"
    by (simp add: additions_cycle_def released_world_def example_world_def additions_item_def
          example_mod_def example_adult_mod_def example_pending_mod_def released_mod_def
          Let_def insert_commute)
  note th = unavailable_mod_retried [OF la mem ns un cyc]
  from th have unseen: "mod_id example_pending_mod \<notin> {7, 8}" by blast
  from th have "{7, 8} \<subseteq> {7, 8 :: int} \<and> latest_added released_world
          = Inr [example_adult_mod, example_mod, released_mod]
        \<and> released_mod \<in> set [example_adult_mod, example_mod, released_mod]
        \<and> mod_id released_mod = mod_id example_pending_mod
        \<and> (\<forall>x\<in>set [example_adult_mod, example_mod, released_mod].
              mod_id x = mod_id example_pending_mod \<longrightarrow> x = released_mod)
        \<and> additions_cycle False released_world {7, 8} =
            (None, {5, 7, 8},
             [FetchLatestAdded, Notify 5 (addition_text released_mod),
              Report [addition_row released_mod], SaveSeen {5, 7, 8}]) \<longrightarrow>
        (if available released_mod then
           (None = (None :: error option) \<longrightarrow> mod_id example_pending_mod \<in> {5, 7, 8})
           \<and> (mod_id example_pending_mod \<in> {5, 7, 8}
                \<and> \<not> (False \<and> contains_adult_content released_mod) \<longrightarrow>
              Notify (mod_id example_pending_mod) (addition_text released_mod)
                \<in> set [FetchLatestAdded, Notify 5 (addition_text released_mod),
                        Report [addition_row released_mod], SaveSeen {5, 7, 8}])
         else mod_id example_pending_mod \<notin> {5, 7, 8}
              \<and> (\<forall>msg. Notify (mod_id example_pending_mod) msg
                    \<notin> set [FetchLatestAdded, Notify 5 (addition_text released_mod),
                            Report [addition_row released_mod], SaveSeen {5, 7, 8}]))"
    by blast
  with la' mem' id' u' cyc' av
  have again: "Notify (mod_id example_pending_mod) (addition_text released_mod)
                \<in> set [FetchLatestAdded, Notify 5 (addition_text released_mod),
                        Report [addition_row released_mod], SaveSeen {5, 7, 8}]"
    by (simp add: id5)
  from la mem ns cyc unseen la' av cyc' again show ?thesis by (simp add: id5)
qed

section \<open>The Update Tracker: what a cycle leaves alone\<close>

lemma map_of_update_other: "j \<noteq> i \<Longrightarrow> map_of (AList.update j v al) i = map_of al i"
  by (simp add: update_conv')

lemma notify_update_frame:
  assumes "notify_update w j ov nv d s = (r, s')" and "j \<noteq> i"
  shows "local_cache s' = local_cache s
         \<and> (\<forall>ev\<in>set (upd_trace s'). concerns i ev \<longrightarrow> ev \<in> set (upd_trace s))"
  using assms
  by (auto simp: notify_update_def Let_def split: sum.splits option.splits)

lemma updates_item_other:
  assumes "updates_item w ud j s = (r, s')" and "j \<noteq> i"
  shows "map_of (local_cache s') i = map_of (local_cache s) i
         \<and> (\<forall>ev\<in>set (upd_trace s'). concerns i ev \<longrightarrow> ev \<in> set (upd_trace s))"
proof (cases "map_of (local_cache s) j")
  case None
  with assms show ?thesis
    by (auto simp: updates_item_def Let_def map_of_update_other split: sum.splits)
next
  case (Some c)
  show ?thesis
  proof (cases "truthy_int (ud j) \<and> c_latest_file_update c \<noteq> ud j")
    case False
    with assms Some show ?thesis by (auto simp: updates_item_def Let_def)
  next
    case True
    let ?s1 = "s\<lparr>upd_trace := upd_trace s @ [FetchMod j]\<rparr>"
    show ?thesis
    proof (cases "mod_by_id w j")
      case (Inl e)
      with assms Some True show ?thesis by (auto simp: updates_item_def Let_def)
    next
      case (Inr d)
      define res where "res = (case (c_version c, version d) of
                          (Some ov, Some nv) \<Rightarrow>
                            if ov \<noteq> [] \<and> nv \<noteq> [] \<and> ov \<noteq> nv
                            then notify_update w j ov nv d ?s1 else (None, ?s1)
                        | _ \<Rightarrow> (None, ?s1))"
      obtain r2 s2 where res: "res = (r2, s2)" by (cases res)
      have frame2: "local_cache s2 = local_cache s
         \<and> (\<forall>ev\<in>set (upd_trace s2). concerns i ev \<longrightarrow> ev \<in> set (upd_trace s))"
      proof (cases "\<exists>ov nv. c_version c = Some ov \<and> version d = Some nv
                      \<and> ov \<noteq> [] \<and> nv \<noteq> [] \<and> ov \<noteq> nv")
        case True
        then obtain ov nv where v: "c_version c = Some ov" "version d = Some nv"
          "ov \<noteq> []" "nv \<noteq> []" "ov \<noteq> nv" by blast
        with res have "notify_update w j ov nv d ?s1 = (r2, s2)" by (simp add: res_def)
        from notify_update_frame [OF this assms(2)] assms(2) show ?thesis by auto
      next
        case False
        then have "res = (None, ?s1)"
          by (auto simp: res_def split: option.splits)
        with res assms(2) show ?thesis by auto
      qed
      have "updates_item w ud j s =
              (case res of (Some e, s2) \<Rightarrow> (Some e, s2)
               | (None, s2) \<Rightarrow>
                   (None, s2\<lparr>local_cache :=
                       AList.update j \<lparr>c_version = version d,
                         c_is_adult = contains_adult_content d,
                         c_latest_file_update = ud j\<rparr> (local_cache s2)\<rparr>))"
        using Some True Inr by (simp add: updates_item_def Let_def res_def)
      with assms(1) res have "s' = s2 \<or> s' = s2\<lparr>local_cache :=
                       AList.update j \<lparr>c_version = version d,
                         c_is_adult = contains_adult_content d,
                         c_latest_file_update = ud j\<rparr> (local_cache s2)\<rparr>"
        by (auto split: option.splits)
      with frame2 assms(2) show ?thesis
        by (auto simp: map_of_update_other)
    qed
  qed
qed

lemma updates_item_unchanged:
  assumes "map_of (local_cache s) i = Some c"
    and "ud i = None \<or> ud i = c_latest_file_update c"
  shows "updates_item w ud i s = (None, s)"
  using assms by (auto simp: updates_item_def Let_def truthy_int_def)

lemma updates_for_frame:
  assumes "updates_for w ud ids s = (r, s')"
    and "i \<notin> set ids \<or> (\<exists>c. map_of (local_cache s) i = Some c
                              \<and> (ud i = None \<or> ud i = c_latest_file_update c))"
  shows "map_of (local_cache s') i = map_of (local_cache s) i
         \<and> (\<forall>ev\<in>set (upd_trace s'). concerns i ev \<longrightarrow> ev \<in> set (upd_trace s))"
  using assms
proof (induction ids arbitrary: s)
  case Nil
  then show ?case by simp
next
  case (Cons j ids)
  obtain r1 s1 where it: "updates_item w ud j s = (r1, s1)" by (cases "updates_item w ud j s")
  have step: "map_of (local_cache s1) i = map_of (local_cache s) i
         \<and> (\<forall>ev\<in>set (upd_trace s1). concerns i ev \<longrightarrow> ev \<in> set (upd_trace s))"
  proof (cases "j = i")
    case False
    from updates_item_other [OF it False] show ?thesis .
  next
    case True
    with Cons.prems(2) obtain c where c: "map_of (local_cache s) i = Some c"
      "ud i = None \<or> ud i = c_latest_file_update c" by auto
    have "updates_item w ud i s = (None, s)"
      using c by (rule updates_item_unchanged)
    with it True show ?thesis by simp
  qed
  show ?case
  proof (cases r1)
    case (Some e)
    with Cons.prems(1) it have "s' = s1" by simp
    with step show ?thesis by simp
  next
    case None
    with Cons.prems(1) it have rest: "updates_for w ud ids s1 = (r, s')" by simp
    have "i \<notin> set ids \<or> (\<exists>c. map_of (local_cache s1) i = Some c
                              \<and> (ud i = None \<or> ud i = c_latest_file_update c))"
      using Cons.prems(2) step by auto
    from Cons.IH [OF rest this] step show ?thesis by auto
  qed
qed

text \<open>
  A cycle leaves a mod alone that the loop does not reach, or that is cached with the
  timestamp of the remote list.
\<close>

lemma updates_cycle_frame:
  assumes "\<And>updated_mods tracked_mods ids. updated w = Inr updated_mods \<Longrightarrow>
             fetch_tracked_mods w game = Inr tracked_mods \<Longrightarrow>
             tracked_mod_ids hide ord tracked_mods = Inr ids \<Longrightarrow>
             i \<notin> set ids
             \<or> (\<exists>e. map_of c i = Some e
                   \<and> (updated_mod_data updated_mods i = None
                       \<or> updated_mod_data updated_mods i = c_latest_file_update e))"
  shows "map_of (fst (updates_cycle hide game ord w c)) i = map_of c i
         \<and> (\<forall>ev\<in>set (snd (updates_cycle hide game ord w c)). \<not> concerns i ev)"
proof (cases "updated w")
  case (Inl e)
  then show ?thesis by (simp add: updates_cycle_def updates_body_def)
next
  case (Inr ums)
  show ?thesis
  proof (cases "fetch_tracked_mods w game")
    case (Inl e)
    with Inr show ?thesis by (simp add: updates_cycle_def updates_body_def)
  next
    case tms: (Inr tms)
    show ?thesis
    proof (cases "tracked_mod_ids hide ord tms")
      case (Inl e)
      with Inr tms show ?thesis by (simp add: updates_cycle_def updates_body_def)
    next
      case ids: (Inr ids)
      let ?s2 = "\<lparr>local_cache = c, mods_with_new_version = [],
                  upd_trace = [FetchUpdated, FetchTracked]\<rparr>"
      obtain r3 s3 where f: "updates_for w (updated_mod_data ums) ids ?s2 = (r3, s3)"
        by (cases "updates_for w (updated_mod_data ums) ids ?s2")
      have "i \<notin> set ids
               \<or> (\<exists>e. map_of (local_cache ?s2) i = Some e
                     \<and> (updated_mod_data ums i = None
                         \<or> updated_mod_data ums i = c_latest_file_update e))"
        using assms [OF Inr tms ids] by simp
      from updates_for_frame [OF f this]
      have fr: "map_of (local_cache s3) i = map_of c i"
        "\<forall>ev\<in>set (upd_trace s3). \<not> concerns i ev" by auto
      have "updates_cycle hide game ord w c =
              (case r3 of
                 Some e \<Rightarrow>
                   (local_cache s3, upd_trace s3 @ [LogError e, Report (mods_with_new_version s3)])
               | None \<Rightarrow>
                  (case write_state w of
                     Some e \<Rightarrow>
                       (local_cache s3,
                        upd_trace s3 @ [LogError e, Report (mods_with_new_version s3)])
                   | None \<Rightarrow>
                       (local_cache s3,
                        upd_trace s3 @ [SaveCache (dump_cache (local_cache s3)),
                                        Report (mods_with_new_version s3)])))"
        using Inr tms ids f
        by (simp add: updates_cycle_def updates_body_def Let_def split: option.splits)
      with fr show ?thesis by (auto split: option.splits)
    qed
  qed
qed

text \<open>
  Claim C7. In a steady-state cycle, for an identifier that is in the cache and whose
  timestamp in the fetched map of updated mods is absent or equal to the cached one, the
  details and changelogs of the mod are not fetched, no notification is made for it, and
  its cache entry after the cycle is the one before. This holds whether or not the
  identifier is tracked, and however the cycle ends.
\<close>

theorem unchanged_timestamp_is_noop:
  assumes "updated w = Inr updated_mods" and "map_of c i = Some e"
    and "updated_mod_data updated_mods i = None
         \<or> updated_mod_data updated_mods i = c_latest_file_update e"
  shows "map_of (fst (updates_cycle hide game ord w c)) i = Some e
         \<and> FetchMod i \<notin> set (snd (updates_cycle hide game ord w c))
         \<and> FetchChangelogs i \<notin> set (snd (updates_cycle hide game ord w c))
         \<and> (\<forall>msg. Notify i msg \<notin> set (snd (updates_cycle hide game ord w c)))"
proof -
  have "map_of (fst (updates_cycle hide game ord w c)) i = map_of c i
         \<and> (\<forall>ev\<in>set (snd (updates_cycle hide game ord w c)). \<not> concerns i ev)"
  proof (rule updates_cycle_frame)
    fix ums tms ids
    assume "updated w = Inr ums"
    with assms(1) have "ums = updated_mods" by simp
    with assms(2,3)
    show "i \<notin> set ids
             \<or> (\<exists>e. map_of c i = Some e
                   \<and> (updated_mod_data ums i = None
                       \<or> updated_mod_data ums i = c_latest_file_update e))"
      by auto
  qed
  then have m: "map_of (fst (updates_cycle hide game ord w c)) i = map_of c i"
    and n: "\<And>ev. ev \<in> set (snd (updates_cycle hide game ord w c)) \<Longrightarrow> \<not> concerns i ev"
    by auto
  from n [of "FetchMod i"] n [of "FetchChangelogs i"] n [of "Notify i msg" for msg] m assms(2)
  show ?thesis by auto
qed

text \<open>Witness for C7: mod 7 cached with the timestamp 200 that the example world reports.\<close>

theorem unchanged_timestamp_is_noop_witness:
  "updated example_world = Inr [\<lparr>u_mod_id = 7, u_latest_file_update = 200\<rparr>]
   \<and> map_of [(7, \<lparr>c_version = Some ''1.0'', c_is_adult = False, c_latest_file_update = Some 200\<rparr>)] 7
       = Some \<lparr>c_version = Some ''1.0'', c_is_adult = False, c_latest_file_update = Some 200\<rparr>
   \<and> updated_mod_data [\<lparr>u_mod_id = 7, u_latest_file_update = 200\<rparr>] 7 = Some 200
   \<and> map_of (fst (updates_cycle False ''starfield'' remdups example_world
        [(7, \<lparr>c_version = Some ''1.0'', c_is_adult = False, c_latest_file_update = Some 200\<rparr>)])) 7
       = Some \<lparr>c_version = Some ''1.0'', c_is_adult = False, c_latest_file_update = Some 200\<rparr>
   \<and> FetchMod 7 \<notin> set (snd (updates_cycle False ''starfield'' remdups example_world
        [(7, \<lparr>c_version = Some ''1.0'', c_is_adult = False, c_latest_file_update = Some 200\<rparr>)]))
   \<and> (\<forall>msg. Notify 7 msg \<notin> set (snd (updates_cycle False ''starfield'' remdups example_world
        [(7, \<lparr>c_version = Some ''1.0'', c_is_adult = False, c_latest_file_update = Some 200\<rparr>)])))"
proof -
  let ?e = "\<lparr>c_version = Some ''1.0'', c_is_adult = False, c_latest_file_update = Some 200\<rparr>"
  have u: "updated example_world = Inr [\<lparr>u_mod_id = 7, u_latest_file_update = 200\<rparr>]"
    by (simp add: example_world_def)
  have m: "map_of [(7, ?e)] 7 = Some ?e" by simp
  have d: "updated_mod_data [\<lparr>u_mod_id = 7, u_latest_file_update = 200\<rparr>] 7 = Some 200"
    by (simp add: updated_mod_data_def)
  have cond: "updated_mod_data [\<lparr>u_mod_id = 7, u_latest_file_update = 200\<rparr>] 7 = None
     \<or> updated_mod_data [\<lparr>u_mod_id = 7, u_latest_file_update = 200\<rparr>] 7 = c_latest_file_update ?e"
    by (simp add: d)
  from unchanged_timestamp_is_noop [OF u m cond, of False "''starfield''" remdups] u m d
  show ?thesis by blast
qed

text \<open>
  Claim C2. Line 198 does not read the adult flag of the cache: it subscripts the
  elements of the fetched list of tracked mods with \<^verbatim>\<open>"is_adult"\<close>. The example
  world tracks mod 7 with the keys \<^verbatim>\<open>mod_id\<close> and \<^verbatim>\<open>domain_name\<close> only, and the
  cache holds mod 7 as not adult with an older timestamp. With the policy on, the
  subscript raises, the handler logs the exception, and the cycle processes no mod at
  all; with the policy off the same cycle notifies the update of mod 7.
\<close>

theorem adult_filter_raises_key_error:
  "fetch_tracked_mods example_world ''starfield''
     = Inr [\<lparr>t_mod_id = 7, t_domain_name = ''starfield'', t_is_adult = None\<rparr>]
   \<and> map_of (example_cache ''1.0'' False) 7
       = Some \<lparr>c_version = Some ''1.0'', c_is_adult = False, c_latest_file_update = Some 100\<rparr>
   \<and> tracked_mod_ids True remdups
         [\<lparr>t_mod_id = 7, t_domain_name = ''starfield'', t_is_adult = None\<rparr>]
       = Inl (KeyError ''is_adult'')
   \<and> updates_cycle True ''starfield'' remdups example_world (example_cache ''1.0'' False)
       = (example_cache ''1.0'' False,
          [FetchUpdated, FetchTracked, LogError (KeyError ''is_adult''), Report []])
   \<and> notifications (snd (updates_cycle False ''starfield'' remdups example_world
                             (example_cache ''1.0'' False)))
       = [(7, update_text ''Lantern'' example_mod 7 ''1.0'' ''1.2''
                [(''1.1'', [''fix A'']), (''1.2'', [''fix B''])])]"
  by (simp add: updates_cycle_def updates_body_def example_world_def
        fetch_tracked_mods_def tracked_mod_ids_def Let_def example_cache_def
        updated_mod_data_def updates_item_def notify_update_def example_mod_def truthy_int_def
        example_changelogs_def new_versions_def last_version_index_def py_slice_from_def
        dict_of_items_def)

section \<open>Exceptions\<close>

lemma updates_loop_never_aborts:
  "fst (updates_loop hide loop game ord ws c) \<noteq> Aborted e"
proof (induction ws arbitrary: c)
  case Nil
  then show ?case by simp
next
  case (Cons w ws)
  obtain c1 t1 where cyc: "updates_cycle hide game ord w c = (c1, t1)"
    by (cases "updates_cycle hide game ord w c")
  obtain st c2 t2 where l: "updates_loop hide loop game ord ws c1 = (st, c2, t2)"
    by (cases "updates_loop hide loop game ord ws c1") auto
  from Cons.IH [of c1] l have "st \<noteq> Aborted e" by simp
  with cyc l show ?case by (cases loop) simp_all
qed

lemma updates_loop_running:
  "fst (updates_loop hide True game ord ws c) = Running"
proof (induction ws arbitrary: c)
  case Nil
  then show ?case by simp
next
  case (Cons w ws)
  obtain c1 t1 where cyc: "updates_cycle hide game ord w c = (c1, t1)"
    by (cases "updates_cycle hide game ord w c")
  obtain st c2 t2 where l: "updates_loop hide True game ord ws c1 = (st, c2, t2)"
    by (cases "updates_loop hide True game ord ws c1") auto
  from Cons.IH [of c1] l have "st = Running" by simp
  with cyc l show ?case by simp
qed

text \<open>
  Claim C8. An exception that leaves the body of the \<^verbatim>\<open>try\<close> statement of a
  steady-state cycle is caught: the cycle logs it, prints its table and ends with the
  cache as the body left it; with \<^verbatim>\<open>loop\<close> set the next cycle follows, without it
  \<^verbatim>\<open>updates\<close> returns. So the loop of \<^verbatim>\<open>updates\<close> never ends in an exception and is
  still running after any number of cycles. In \<^verbatim>\<open>additions\<close> a failed fetch of the
  latest mods leaves the cycle as an exception, and an exception that leaves a cycle
  ends the run.
\<close>

theorem updates_catches_additions_aborts:
  "(updates_body hide game ord w \<lparr>local_cache = c, mods_with_new_version = [], upd_trace = []\<rparr>
        = (Some e, s) \<longrightarrow>
      updates_cycle hide game ord w c =
        (local_cache s, upd_trace s @ [LogError e, Report (mods_with_new_version s)])
      \<and> updates_loop hide True game ord (w # ws) c =
          (case updates_loop hide True game ord ws (local_cache s) of
             (st, c'', t') \<Rightarrow>
               (st, c'', (upd_trace s @ [LogError e, Report (mods_with_new_version s)]) @ t'))
      \<and> updates_loop hide False game ord (w # ws) c =
          (Exited, local_cache s, upd_trace s @ [LogError e, Report (mods_with_new_version s)]))
   \<and> fst (updates_loop hide True game ord ws c) = Running
   \<and> (\<forall>e'. fst (updates_loop hide loop game ord ws c) \<noteq> Aborted e')
   \<and> (latest_added w = Inl e \<longrightarrow>
        additions_cycle hide w seen = (Some e, seen, [FetchLatestAdded]))
   \<and> (additions_cycle hide w seen = (Some e, seen', t) \<longrightarrow>
        additions_loop hide loop (w # ws) seen = (Aborted e, seen', t))"
proof -
  have caught: "updates_cycle hide game ord w c =
        (local_cache s, upd_trace s @ [LogError e, Report (mods_with_new_version s)])"
    if "updates_body hide game ord w \<lparr>local_cache = c, mods_with_new_version = [], upd_trace = []\<rparr>
        = (Some e, s)"
    using that by (simp add: updates_cycle_def)
  have fetch: "additions_cycle hide w seen = (Some e, seen, [FetchLatestAdded])"
    if "latest_added w = Inl e"
    using that by (simp add: additions_cycle_def)
  have abort: "additions_loop hide loop (w # ws) seen = (Aborted e, seen', t)"
    if "additions_cycle hide w seen = (Some e, seen', t)"
    using that by simp
  from caught fetch abort updates_loop_running [of hide game ord ws c]
    updates_loop_never_aborts [of hide loop game ord ws c]
  show ?thesis by (simp add: case_prod_beta)
qed

text \<open>
  Witness for C8: a cycle in a world where every remote call raises, followed by a
  cycle in the example world. \<^verbatim>\<open>updates\<close> logs the error and notifies in the second
  cycle; \<^verbatim>\<open>additions\<close> is aborted by the first.
\<close>

theorem updates_catches_additions_aborts_witness:
  "updates_body False ''starfield'' remdups offline_world
       \<lparr>local_cache = example_cache ''1.0'' False, mods_with_new_version = [], upd_trace = []\<rparr>
     = (Some RequestError,
        \<lparr>local_cache = example_cache ''1.0'' False, mods_with_new_version = [],
         upd_trace = [FetchUpdated]\<rparr>)
   \<and> updates_cycle False ''starfield'' remdups offline_world (example_cache ''1.0'' False)
       = (example_cache ''1.0'' False, [FetchUpdated, LogError RequestError, Report []])
   \<and> fst (updates_loop False True ''starfield'' remdups [offline_world, example_world]
            (example_cache ''1.0'' False)) = Running
   \<and> notifications (snd (snd (updates_loop False True ''starfield'' remdups
            [offline_world, example_world] (example_cache ''1.0'' False)))) \<noteq> []
   \<and> latest_added offline_world = Inl RequestError
   \<and> additions_loop False True [offline_world, example_world] {}
       = (Aborted RequestError, {}, [FetchLatestAdded])"
proof -
  let ?s = "\<lparr>local_cache = example_cache ''1.0'' False, mods_with_new_version = [],
         upd_trace = [FetchUpdated]\<rparr>"
  have body: "updates_body False ''starfield'' remdups offline_world
       \<lparr>local_cache = example_cache ''1.0'' False, mods_with_new_version = [], upd_trace = []\<rparr>
     = (Some RequestError, ?s)"
    by (simp add: updates_body_def offline_world_def)
  have la: "latest_added offline_world = Inl RequestError" by (simp add: offline_world_def)
  note th = updates_catches_additions_aborts [of False "''starfield''" remdups offline_world
      "example_cache ''1.0'' False" RequestError ?s "[example_world]" True "{}" "{}"
      "[FetchLatestAdded]"]
  have second: "notifications (snd (updates_cycle False ''starfield'' remdups example_world
                   (example_cache ''1.0'' False))) \<noteq> []"
    by (simp add: updates_cycle_def updates_body_def example_world_def
        fetch_tracked_mods_def tracked_mod_ids_def Let_def example_cache_def
        updated_mod_data_def updates_item_def notify_update_def example_mod_def truthy_int_def)
  from th body la have cyc: "updates_cycle False ''starfield'' remdups offline_world (example_cache ''1.0'' False)
       = (example_cache ''1.0'' False, [FetchUpdated, LogError RequestError, Report []])"
    by simp
  from th body have lp: "updates_loop False True ''starfield'' remdups [offline_world, example_world]
      (example_cache ''1.0'' False) =
          (case updates_loop False True ''starfield'' remdups [example_world] (example_cache ''1.0'' False) of
             (st, c'', t') \<Rightarrow>
               (st, c'', ([FetchUpdated] @ [LogError RequestError, Report []]) @ t'))"
    by simp
  from th have run: "fst (updates_loop False True ''starfield'' remdups [offline_world, example_world]
            (example_cache ''1.0'' False)) = Running"
    using updates_loop_running by blast
  from th la have ab: "additions_loop False True [offline_world, example_world] {}
       = (Aborted RequestError, {}, [FetchLatestAdded])"
    by simp
  have notif: "notifications (snd (snd (updates_loop False True ''starfield'' remdups
            [offline_world, example_world] (example_cache ''1.0'' False)))) \<noteq> []"
    using second
    by (simp add: lp cyc case_prod_beta notifications_append)
  from body cyc run notif la ab show ?thesis by blast
qed

lemma bootstrap_for_trace:
  "bootstrap_for w ud ids s = (r, s') \<Longrightarrow>
     \<forall>ev\<in>set (upd_trace s'). ev \<in> set (upd_trace s) \<or> (\<exists>i. ev = FetchMod i)"
proof (induction ids arbitrary: s)
  case Nil
  then show ?case by simp
next
  case (Cons j ids)
  obtain r1 s1 where it: "bootstrap_item w ud j s = (r1, s1)" by (cases "bootstrap_item w ud j s")
  then have step: "upd_trace s1 = upd_trace s @ [FetchMod j]"
    by (auto simp: bootstrap_item_def Let_def split: sum.splits)
  show ?case
  proof (cases r1)
    case (Some e)
    with Cons.prems it have "s' = s1" by simp
    with step show ?thesis by auto
  next
    case None
    with Cons.prems it have "bootstrap_for w ud ids s1 = (r, s')" by simp
    from Cons.IH [OF this] step show ?thesis by auto
  qed
qed

lemma bootstrap_failed_trace:
  assumes "bootstrap game ord w c = (Some e, c', t)"
  shows "\<forall>ev\<in>set t. ev = FetchUpdated \<or> ev = FetchTracked \<or> (\<exists>i. ev = FetchMod i)"
proof (cases "updated w")
  case (Inl e0)
  with assms show ?thesis by (auto simp: bootstrap_def)
next
  case (Inr ums)
  show ?thesis
  proof (cases "fetch_tracked_mods w game")
    case (Inl e0)
    with assms Inr show ?thesis by (auto simp: bootstrap_def)
  next
    case tms: (Inr tms)
    let ?s0 = "\<lparr>local_cache = c, mods_with_new_version = [],
                        upd_trace = [FetchUpdated, FetchTracked]\<rparr>"
    obtain r s where f: "bootstrap_for w (updated_mod_data ums) (ord (map t_mod_id tms)) ?s0 = (r, s)"
      by (cases "bootstrap_for w (updated_mod_data ums) (ord (map t_mod_id tms)) ?s0")
    from assms Inr tms f have "t = upd_trace s"
      by (auto simp: bootstrap_def split: option.splits)
    with bootstrap_for_trace [OF f] show ?thesis by auto
  qed
qed

text \<open>
  Claim C10. When the persisted cache is empty and an exception leaves the initial
  population, \<^verbatim>\<open>updates\<close> ends with that exception before any steady-state cycle: the
  handler of the cycles logs nothing, and the cache built so far is not saved.
\<close>

theorem bootstrap_failure_aborts:
  assumes "load_cache state_file = Inr []"
    and "bootstrap game ord w0 [] = (Some e, c', t)"
  shows "updates hide loop game ord state_file w0 ws = (Aborted e, c', t)
         \<and> (\<forall>j. SaveCache j \<notin> set t) \<and> (\<forall>e'. LogError e' \<notin> set t)"
proof -
  have "updates hide loop game ord state_file w0 ws = (Aborted e, c', t)"
    using assms by (simp add: updates_def)
  moreover have "SaveCache j \<notin> set t" for j
    using bootstrap_failed_trace [OF assms(2)] by auto
  moreover have "LogError e' \<notin> set t" for e'
    using bootstrap_failed_trace [OF assms(2)] by auto
  ultimately show ?thesis by blast
qed

text \<open>
  Witness for C10: no state file, mods 7 and 9 tracked, the details of mod 9 cannot be
  fetched. The entry built for mod 7 is lost.
\<close>

theorem bootstrap_failure_aborts_witness:
  "load_cache None = Inr []
   \<and> bootstrap ''starfield'' remdups failing_world [] =
       (Some RequestError,
        [(7, \<lparr>c_version = Some ''1.2'', c_is_adult = False, c_latest_file_update = Some 200\<rparr>)],
        [FetchUpdated, FetchTracked, FetchMod 7, FetchMod 9])
   \<and> updates False True ''starfield'' remdups None failing_world [example_world] =
       (Aborted RequestError,
        [(7, \<lparr>c_version = Some ''1.2'', c_is_adult = False, c_latest_file_update = Some 200\<rparr>)],
        [FetchUpdated, FetchTracked, FetchMod 7, FetchMod 9])"
proof -
  have l: "load_cache None = Inr []" by (simp add: load_cache_def)
  have b: "bootstrap ''starfield'' remdups failing_world [] =
       (Some RequestError,
        [(7, \<lparr>c_version = Some ''1.2'', c_is_adult = False, c_latest_file_update = Some 200\<rparr>)],
        [FetchUpdated, FetchTracked, FetchMod 7, FetchMod 9])"
    by (simp add: bootstrap_def failing_world_def example_world_def fetch_tracked_mods_def
          bootstrap_item_def updated_mod_data_def example_mod_def Let_def)
  from bootstrap_failure_aborts [OF l b] l b show ?thesis by blast
qed

section \<open>The state file of the Update Tracker is read back as written\<close>

lemma digit_val_digit_char: "d < 10 \<Longrightarrow> digit_val (digit_char d) = Some d"
proof -
  assume "d < 10"
  then have "d \<in> {0, 1, 2, 3, 4, 5, 6, 7, 8, 9}" by auto
  then show ?thesis
    by (auto simp: digit_val_def digit_char_def)
qed

lemma parse_digits_append:
  "parse_digits acc (xs @ ys) =
     (case parse_digits acc xs of None \<Rightarrow> None | Some a \<Rightarrow> parse_digits a ys)"
  by (induction xs arbitrary: acc) (auto split: option.splits)

lemma parse_digits_digits: "parse_digits 0 (digits n) = Some n"
proof (induction n rule: digits.induct)
  case (1 n)
  show ?case
  proof (cases "n < 10")
    case True
    then show ?thesis by (simp add: digits.simps [of n] digit_val_digit_char)
  next
    case False
    with 1 have IH: "parse_digits 0 (digits (n div 10)) = Some (n div 10)" by simp
    have "n mod 10 < 10" by simp
    from digit_val_digit_char [OF this] False IH show ?thesis
      by (simp add: digits.simps [of n] parse_digits_append)
  qed
qed

lemma digits_not_empty: "digits n \<noteq> []"
  by (subst digits.simps) simp

lemma digit_char_not_sign: "d < 10 \<Longrightarrow> digit_char d \<noteq> CHR ''-'' \<and> digit_char d \<noteq> CHR ''+''"
proof -
  assume "d < 10"
  then have "d \<in> {0, 1, 2, 3, 4, 5, 6, 7, 8, 9}" by auto
  then show ?thesis by (auto simp: digit_char_def)
qed

lemma hd_digits: "\<exists>d cs. d < 10 \<and> digits n = digit_char d # cs"
proof (induction n rule: digits.induct)
  case (1 n)
  show ?case
  proof (cases "n < 10")
    case True
    then show ?thesis by (subst digits.simps) auto
  next
    case False
    with 1 obtain d cs where "d < 10" "digits (n div 10) = digit_char d # cs" by auto
    with False show ?thesis by (subst digits.simps) auto
  qed
qed

lemma py_int_py_str: "py_int (py_str k) = Some k"
proof (cases "k < 0")
  case True
  then show ?thesis
    by (simp add: py_int_def py_str_def digits_not_empty parse_digits_digits)
next
  case False
  obtain d cs where d: "d < 10" "digits (nat k) = digit_char d # cs"
    using hd_digits by blast
  from digit_char_not_sign [OF d(1)] d(2) parse_digits_digits [of "nat k"] False
  show ?thesis by (simp add: py_int_def py_str_def)
qed

lemma py_str_inj: "inj py_str"
  by (rule inj_on_inverseI [where g = "\<lambda>s. the (py_int s)"]) (simp add: py_int_py_str)

lemma entry_of_json_of_entry: "entry_of_json (json_of_entry e) = Some e"
  by (cases e) (simp add: entry_of_json_def json_of_entry_def dict_of_items_def Let_def
        split: option.splits)

lemma int_keys_dump:
  "int_keys (map (\<lambda>(i, e). (py_str i, json_of_entry e)) c) = Inr c"
  by (induction c) (auto simp: py_int_py_str entry_of_json_of_entry)

text \<open>
  The cache is a dict: its keys stay distinct through the load, the initial population
  and every cycle.
\<close>

lemma foldl_update_keys_distinct:
  "distinct (map fst acc) \<Longrightarrow>
   distinct (map fst (foldl (\<lambda>d kv. AList.update (fst kv) (snd kv) d) acc xs))"
  by (induction xs arbitrary: acc) (simp_all add: distinct_update)

lemma dict_of_items_keys_distinct: "distinct (map fst (dict_of_items xs))"
  by (simp add: dict_of_items_def foldl_update_keys_distinct)

lemma load_cache_distinct: "load_cache state_file = Inr c \<Longrightarrow> distinct (map fst c)"
  by (auto simp: load_cache_def dict_of_items_keys_distinct
           split: option.splits json.splits sum.splits if_splits)

lemma notify_update_cache: "notify_update w i ov nv d s = (r, s') \<Longrightarrow> local_cache s' = local_cache s"
  by (auto simp: notify_update_def Let_def split: sum.splits option.splits)

lemma updates_item_distinct:
  assumes "updates_item w ud i s = (r, s')" and "distinct (map fst (local_cache s))"
  shows "distinct (map fst (local_cache s'))"
proof -
  have "local_cache s' = local_cache s \<or> (\<exists>v. local_cache s' = AList.update i v (local_cache s))"
  proof (cases "map_of (local_cache s) i")
    case None
    with assms(1) show ?thesis
      by (auto simp: updates_item_def Let_def split: sum.splits)
  next
    case (Some c)
    show ?thesis
    proof (cases "truthy_int (ud i) \<and> c_latest_file_update c \<noteq> ud i")
      case False
      with assms(1) Some show ?thesis by (auto simp: updates_item_def Let_def)
    next
      case True
      let ?s1 = "s\<lparr>upd_trace := upd_trace s @ [FetchMod i]\<rparr>"
      show ?thesis
      proof (cases "mod_by_id w i")
        case (Inl e)
        with assms(1) Some True show ?thesis by (auto simp: updates_item_def Let_def)
      next
        case (Inr d)
        define res where "res = (case (c_version c, version d) of
                          (Some ov, Some nv) \<Rightarrow>
                            if ov \<noteq> [] \<and> nv \<noteq> [] \<and> ov \<noteq> nv
                            then notify_update w i ov nv d ?s1 else (None, ?s1)
                        | _ \<Rightarrow> (None, ?s1))"
        obtain r2 s2 where res: "res = (r2, s2)" by (cases res)
        have c2: "local_cache s2 = local_cache s"
          using res notify_update_cache [of w i _ _ d ?s1 r2 s2]
          by (auto simp: res_def split: option.splits if_splits)
        have "updates_item w ud i s =
              (case res of (Some e, s2) \<Rightarrow> (Some e, s2)
               | (None, s2) \<Rightarrow>
                   (None, s2\<lparr>local_cache :=
                       AList.update i \<lparr>c_version = version d,
                         c_is_adult = contains_adult_content d,
                         c_latest_file_update = ud i\<rparr> (local_cache s2)\<rparr>))"
          using Some True Inr by (simp add: updates_item_def Let_def res_def)
        with assms(1) res c2 show ?thesis by (auto split: option.splits)
      qed
    qed
  qed
  with assms(2) show ?thesis by (auto simp: distinct_update)
qed

lemma updates_for_distinct:
  "updates_for w ud ids s = (r, s') \<Longrightarrow> distinct (map fst (local_cache s)) \<Longrightarrow>
     distinct (map fst (local_cache s'))"
proof (induction ids arbitrary: s)
  case Nil
  then show ?case by simp
next
  case (Cons i ids)
  obtain r1 s1 where it: "updates_item w ud i s = (r1, s1)" by (cases "updates_item w ud i s")
  note d1 = updates_item_distinct [OF it Cons.prems(2)]
  show ?case
  proof (cases r1)
    case (Some e)
    with Cons.prems(1) it d1 show ?thesis by simp
  next
    case None
    with Cons.prems(1) it have "updates_for w ud ids s1 = (r, s')" by simp
    from Cons.IH [OF this d1] show ?thesis .
  qed
qed

lemma updates_cycle_distinct:
  assumes "distinct (map fst c)"
  shows "distinct (map fst (fst (updates_cycle hide game ord w c)))"
proof (cases "updated w")
  case (Inl e)
  with assms show ?thesis by (simp add: updates_cycle_def updates_body_def)
next
  case (Inr ums)
  show ?thesis
  proof (cases "fetch_tracked_mods w game")
    case (Inl e)
    with Inr assms show ?thesis by (simp add: updates_cycle_def updates_body_def)
  next
    case tms: (Inr tms)
    show ?thesis
    proof (cases "tracked_mod_ids hide ord tms")
      case (Inl e)
      with Inr tms assms show ?thesis by (simp add: updates_cycle_def updates_body_def)
    next
      case ids: (Inr ids)
      let ?s2 = "\<lparr>local_cache = c, mods_with_new_version = [],
                  upd_trace = [FetchUpdated, FetchTracked]\<rparr>"
      obtain r3 s3 where f: "updates_for w (updated_mod_data ums) ids ?s2 = (r3, s3)"
        by (cases "updates_for w (updated_mod_data ums) ids ?s2")
      from updates_for_distinct [OF f] assms have d: "distinct (map fst (local_cache s3))" by simp
      have "fst (updates_cycle hide game ord w c) = local_cache s3"
        using Inr tms ids f
        by (simp add: updates_cycle_def updates_body_def Let_def split: option.splits)
      with d show ?thesis by simp
    qed
  qed
qed

lemma bootstrap_for_distinct:
  "bootstrap_for w ud ids s = (r, s') \<Longrightarrow> distinct (map fst (local_cache s)) \<Longrightarrow>
     distinct (map fst (local_cache s'))"
proof (induction ids arbitrary: s)
  case Nil
  then show ?case by simp
next
  case (Cons i ids)
  obtain r1 s1 where it: "bootstrap_item w ud i s = (r1, s1)" by (cases "bootstrap_item w ud i s")
  with Cons.prems(2) have d1: "distinct (map fst (local_cache s1))"
    by (auto simp: bootstrap_item_def Let_def distinct_update split: sum.splits)
  show ?case
  proof (cases r1)
    case (Some e)
    with Cons.prems(1) it d1 show ?thesis by simp
  next
    case None
    with Cons.prems(1) it have "bootstrap_for w ud ids s1 = (r, s')" by simp
    from Cons.IH [OF this d1] show ?thesis .
  qed
qed

lemma bootstrap_distinct:
  assumes "bootstrap game ord w c = (r, c', t)" and "distinct (map fst c)"
  shows "distinct (map fst c')"
proof (cases "updated w")
  case (Inl e)
  with assms show ?thesis by (auto simp: bootstrap_def)
next
  case (Inr ums)
  show ?thesis
  proof (cases "fetch_tracked_mods w game")
    case (Inl e)
    with assms Inr show ?thesis by (auto simp: bootstrap_def)
  next
    case tms: (Inr tms)
    let ?s0 = "\<lparr>local_cache = c, mods_with_new_version = [],
                        upd_trace = [FetchUpdated, FetchTracked]\<rparr>"
    obtain r0 s where f: "bootstrap_for w (updated_mod_data ums) (ord (map t_mod_id tms)) ?s0 = (r0, s)"
      by (cases "bootstrap_for w (updated_mod_data ums) (ord (map t_mod_id tms)) ?s0")
    from assms Inr tms f have "c' = local_cache s"
      by (auto simp: bootstrap_def split: option.splits)
    with bootstrap_for_distinct [OF f] assms(2) show ?thesis by simp
  qed
qed

lemma updates_loop_distinct:
  "updates_loop hide loop game ord ws c = (st, c', t) \<Longrightarrow> distinct (map fst c) \<Longrightarrow>
     distinct (map fst c')"
proof (induction ws arbitrary: c st c' t)
  case Nil
  then show ?case by simp
next
  case (Cons w ws)
  obtain c1 t1 where cyc: "updates_cycle hide game ord w c = (c1, t1)"
    by (cases "updates_cycle hide game ord w c")
  from updates_cycle_distinct [OF Cons.prems(2), of hide game ord w] cyc
  have d1: "distinct (map fst c1)" by simp
  show ?case
  proof (cases loop)
    case False
    with Cons.prems(1) cyc d1 show ?thesis by simp
  next
    case True
    obtain st2 c2 t2 where l: "updates_loop hide loop game ord ws c1 = (st2, c2, t2)"
      by (cases "updates_loop hide loop game ord ws c1") auto
    from True Cons.prems(1) cyc l have "c' = c2" by simp
    with Cons.IH [OF l d1] show ?thesis by simp
  qed
qed

text \<open>Every cache \<^verbatim>\<open>updates\<close> holds has distinct keys.\<close>

lemma updates_distinct:
  assumes "updates hide loop game ord state_file w0 ws = (st, c, t)"
  shows "distinct (map fst c)"
proof (cases "load_cache state_file")
  case (Inl e)
  with assms show ?thesis by (simp add: updates_def)
next
  case (Inr c0)
  note d0 = load_cache_distinct [OF Inr]
  obtain r1 c1 t1 where b: "(if c0 = [] then bootstrap game ord w0 c0 else (None, c0, [])) = (r1, c1, t1)"
    by (cases "if c0 = [] then bootstrap game ord w0 c0 else (None, c0, [])") auto
  have d1: "distinct (map fst c1)"
    using b d0 bootstrap_distinct [of game ord w0 c0 r1 c1 t1] by (auto split: if_splits)
  show ?thesis
  proof (cases r1)
    case (Some e)
    with assms Inr b d1 show ?thesis by (simp add: updates_def)
  next
    case None
    obtain st2 c2 t2 where l: "updates_loop hide loop game ord ws c1 = (st2, c2, t2)"
      by (cases "updates_loop hide loop game ord ws c1") auto
    with assms Inr b None have "c = c2" by (simp add: updates_def)
    with updates_loop_distinct [OF l d1] show ?thesis by simp
  qed
qed

text \<open>
  Claim C9. Loading the document that \<^verbatim>\<open>save_state\<close> writes for a cache gives the
  cache back: the same identifiers in the same order, each with the same version, adult
  flag and timestamp. The keys of the document are the decimal strings of the
  identifiers and \<^verbatim>\<open>int\<close> reads them back. A dict has distinct keys, which is the
  hypothesis; by \<open>updates_distinct\<close> every cache that \<^verbatim>\<open>updates\<close> holds meets it.
\<close>

theorem cache_round_trip:
  assumes "distinct (map fst c)"
  shows "load_cache (Some (dump_cache c)) = Inr c"
proof -
  let ?kvs = "map (\<lambda>(i, e). (py_str i, json_of_entry e)) c"
  have keys: "map fst ?kvs = map py_str (map fst c)" by (induction c) auto
  have "inj_on py_str (set (map fst c))" by (rule inj_on_subset [OF py_str_inj]) simp
  with assms have "distinct (map py_str (map fst c))" by (subst distinct_map) simp
  then have "distinct (map fst ?kvs)" by (simp only: keys)
  then have "dict_of_items ?kvs = ?kvs" by (rule dict_of_items_distinct)
  with assms show ?thesis
    by (simp add: load_cache_def dump_cache_def int_keys_dump dict_of_items_distinct)
qed

text \<open>Witness for C9: a cache of two entries, one with a negative identifier and nulls.\<close>

theorem cache_round_trip_witness:
  "distinct (map fst [(7 :: int, \<lparr>c_version = Some ''1.2'', c_is_adult = False, c_latest_file_update = Some 200\<rparr>),
                      (- 12, \<lparr>c_version = None, c_is_adult = True, c_latest_file_update = None\<rparr>)])
   \<and> dump_cache [(7 :: int, \<lparr>c_version = Some ''1.2'', c_is_adult = False, c_latest_file_update = Some 200\<rparr>),
                (- 12, \<lparr>c_version = None, c_is_adult = True, c_latest_file_update = None\<rparr>)]
       = JObject [(''7'', JObject [(''version'', JString ''1.2''), (''is_adult'', JBool False),
                                   (''latest_file_update'', JInt 200)]),
                  (''-12'', JObject [(''version'', JNull), (''is_adult'', JBool True),
                                     (''latest_file_update'', JNull)])]
   \<and> load_cache (Some (JObject [(''7'', JObject [(''version'', JString ''1.2''), (''is_adult'', JBool False),
                                   (''latest_file_update'', JInt 200)]),
                  (''-12'', JObject [(''version'', JNull), (''is_adult'', JBool True),
                                     (''latest_file_update'', JNull)])]))
       = Inr [(7 :: int, \<lparr>c_version = Some ''1.2'', c_is_adult = False, c_latest_file_update = Some 200\<rparr>),
              (- 12, \<lparr>c_version = None, c_is_adult = True, c_latest_file_update = None\<rparr>)]"
proof -
  let ?c = "[(7 :: int, \<lparr>c_version = Some ''1.2'', c_is_adult = False, c_latest_file_update = Some 200\<rparr>),
             (- 12, \<lparr>c_version = None, c_is_adult = True, c_latest_file_update = None\<rparr>)]"
  have d: "distinct (map fst ?c)" by simp
  have dump: "dump_cache ?c
       = JObject [(''7'', JObject [(''version'', JString ''1.2''), (''is_adult'', JBool False),
                                   (''latest_file_update'', JInt 200)]),
                  (''-12'', JObject [(''version'', JNull), (''is_adult'', JBool True),
                                     (''latest_file_update'', JNull)])]"
    by (simp add: dump_cache_def json_of_entry_def py_str_def digits.simps digit_char_def)
  from cache_round_trip [OF d] d dump show ?thesis by simp
qed

end
